theory Spec2Isabelle
  imports Main
begin

unbundle bit_operations_syntax

section \<open>Errors\<close>

text \<open>
  The module raises two exception classes of its own, \<open>RegNotFoundException\<close> and
  \<open>RopException\<close>, each carrying a message.  An \<open>IndexError\<close> is what Python raises
  when a list is indexed out of range.  A computation that may raise returns
  \<open>error + 'a\<close>, with \<open>Inl\<close> for the exception.
\<close>

datatype error =
    RegNotFoundException string
  | RopException string
  | IndexError

section \<open>Architecture descriptor\<close>

text \<open>
  \<open>arch.bits\<close> is the word width, \<open>arch.register_names\<close> the dictionary from
  register-file offsets to register names.  Offsets are Python integers.
\<close>

record arch =
  bits :: nat
  register_names :: "int \<rightharpoonup> string"

section \<open>Printing integers\<close>

text \<open>Python's \<open>str\<close> on an integer, used in the message of \<open>get_reg_name\<close>.\<close>

fun str_nat :: "nat \<Rightarrow> string" where
  "str_nat n =
     (if n < 10 then [''0123456789'' ! n]
      else str_nat (n div 10) @ [''0123456789'' ! (n mod 10)])"

declare str_nat.simps [simp del]

definition str_int :: "int \<Rightarrow> string" where
  "str_int i = (if i < 0 then CHR ''-'' # str_nat (nat (- i)) else str_nat (nat i))"

section \<open>Register resolver: \<open>get_reg_name\<close>\<close>

text \<open>
  The \<open>while\<close> loop of \<open>get_reg_name\<close>: \<open>reg_offset\<close> walks downwards from
  \<open>original_offset\<close> while it is non-negative and not below
  \<open>original_offset - arch.bits/8\<close>; the first offset found in the table decides.  When
  the loop condition fails the exception is raised.  The module is Python 2, where \<open>/\<close>
  on integers is integer division; an integer offset is at least
  \<open>original_offset - arch.bits/8\<close> for the same offsets under true division.
\<close>

function get_reg_name_loop :: "arch \<Rightarrow> int \<Rightarrow> int \<Rightarrow> error + string" where
  "get_reg_name_loop a original_offset reg_offset =
     (if reg_offset \<ge> 0 \<and> reg_offset \<ge> original_offset - int (bits a div 8) then
        (case register_names a reg_offset of
           Some name \<Rightarrow> Inr name
         | None \<Rightarrow> get_reg_name_loop a original_offset (reg_offset - 1))
      else Inl (RegNotFoundException
                 (''register '' @ str_int original_offset @ '' not found'')))"
  by pat_completeness auto
termination
  by (relation "measure (\<lambda>(a, original_offset, reg_offset). nat (reg_offset + 1))") auto

declare get_reg_name_loop.simps [simp del]

text \<open>The offset argument may be \<open>None\<close>, which is rejected first.\<close>

definition get_reg_name :: "arch \<Rightarrow> int option \<Rightarrow> error + string" where
  "get_reg_name a reg_offset =
     (case reg_offset of
        None \<Rightarrow> Inl (RegNotFoundException ''register offset is None'')
      | Some off \<Rightarrow> get_reg_name_loop a off off)"

text \<open>
  The offsets the loop looks at, for a query \<open>off\<close>: those of the table that are not
  above \<open>off\<close>, not negative and not more than \<open>arch.bits/8\<close> below \<open>off\<close>.
\<close>

definition candidate :: "arch \<Rightarrow> int \<Rightarrow> int \<Rightarrow> bool" where
  "candidate a off b =
     (register_names a b \<noteq> None \<and> b \<le> off \<and> 0 \<le> b \<and> off - int (bits a div 8) \<le> b)"

section \<open>Symbolic expressions\<close>

text \<open>
  Expressions are the solver library's bit-vector trees.  The module reads three things
  off an expression: \<open>ast.variables\<close> (the names of its symbolic roots),
  \<open>ast.size()\<close> (its width in bits) and \<open>ast.symbolic\<close> (whether it has a symbolic
  root at all).  It builds expressions in two places: \<open>se.BVS(name, size)\<close> and
  \<open>regs.sp + n\<close>.  \<open>BVV v n\<close> is the constant \<open>v\<close> of width \<open>n\<close>, \<open>BVS x n\<close> a
  symbolic root named \<open>x\<close>.
\<close>

datatype ast =
    BVV nat nat
  | BVS string nat
  | BV_Add ast ast
  | BV_And ast ast

fun ast_size :: "ast \<Rightarrow> nat" where
  "ast_size (BVV v n) = n"
| "ast_size (BVS x n) = n"
| "ast_size (BV_Add a b) = ast_size a"
| "ast_size (BV_And a b) = ast_size a"

text \<open>
  \<open>ast.variables\<close> is a set of names; \<open>variables\<close> lists it in one iteration order.
\<close>

fun variables :: "ast \<Rightarrow> string list" where
  "variables (BVV v n) = []"
| "variables (BVS x n) = [x]"
| "variables (BV_Add a b) = variables a @ variables b"
| "variables (BV_And a b) = variables a @ variables b"

definition symbolic :: "ast \<Rightarrow> bool" where
  "symbolic a = (variables a \<noteq> [])"

text \<open>The value of an expression when each root is given a value.\<close>

fun ast_eval :: "(string \<Rightarrow> nat) \<Rightarrow> ast \<Rightarrow> nat" where
  "ast_eval env (BVV v n) = v mod 2 ^ n"
| "ast_eval env (BVS x n) = env x mod 2 ^ n"
| "ast_eval env (BV_Add a b) = (ast_eval env a + ast_eval env b) mod 2 ^ ast_size a"
| "ast_eval env (BV_And a b) = (ast_eval env a AND ast_eval env b)"

text \<open>
  \<open>e + n\<close> for an expression \<open>e\<close> and a Python integer \<open>n\<close>: the integer becomes a
  constant of the width of \<open>e\<close>.
\<close>

definition bv_add_int :: "ast \<Rightarrow> int \<Rightarrow> ast" where
  "bv_add_int e n = BV_Add e (BVV (nat (n mod 2 ^ ast_size e)) (ast_size e))"

text \<open>
  Constraints.  \<open>C_eq_int e v\<close> is \<open>e == v\<close> for a Python integer \<open>v\<close>, the only kind
  this module builds; a state may carry others from the execution engine.
\<close>

datatype constraint =
    C_eq_int ast int
  | C_eq ast ast
  | C_ne ast ast

text \<open>
  Whether a constraint is true when each root is given a value.  In \<open>e == v\<close> the
  integer \<open>v\<close> becomes a constant of the width of \<open>e\<close>, as in \<open>e + n\<close>: the value of
  \<open>e\<close> is compared with \<open>v\<close> modulo \<open>2\<close> to that width.
\<close>

fun holds :: "(string \<Rightarrow> nat) \<Rightarrow> constraint \<Rightarrow> bool" where
  "holds env (C_eq_int a v) = (int (ast_eval env a) = v mod 2 ^ ast_size a)"
| "holds env (C_eq a b) = (ast_eval env a = ast_eval env b)"
| "holds env (C_ne a b) = (ast_eval env a \<noteq> ast_eval env b)"

section \<open>Dependency extractor: \<open>get_ast_dependency\<close>\<close>

definition startswith :: "string \<Rightarrow> string \<Rightarrow> bool" where
  "startswith s p = (take (length p) s = p)"

text \<open>\<open>s.split("-")[0]\<close>: the part of \<open>s\<close> before its first \<open>-\<close> (all of it when there is none).\<close>

definition split_dash_first :: "string \<Rightarrow> string" where
  "split_dash_first s = takeWhile (\<lambda>c. c \<noteq> CHR ''-'') s"

text \<open>
  The function returns the Python set \<open>dependencies\<close> when the loop runs to its end and
  the empty Python list from inside the loop.
\<close>

datatype dep_result =
    Dep_set "string set"
  | Dep_list "string list"

fun dependency_loop :: "string list \<Rightarrow> string set \<Rightarrow> dep_result" where
  "dependency_loop [] dependencies = Dep_set dependencies"
| "dependency_loop (var # vars) dependencies =
     (if startswith var ''sreg_''
      then dependency_loop vars (insert (split_dash_first (drop 5 var)) dependencies)
      else Dep_list [])"

definition get_ast_dependency :: "ast \<Rightarrow> dep_result" where
  "get_ast_dependency a = dependency_loop (variables a) {}"

section \<open>Machine states and the store of state objects\<close>

text \<open>The engine options the module names; \<open>Engine_option\<close> stands for any other.\<close>

datatype sim_option =
    AVOID_MULTIVALUED_READS
  | AVOID_MULTIVALUED_WRITES
  | NO_SYMBOLIC_JUMP_RESOLUTION
  | CGC_NO_SYMBOLIC_RECEIVE_LENGTH
  | NO_SYMBOLIC_SYSCALL_RESOLUTION
  | TRACK_ACTION_HISTORY
  | CGC_ZERO_FILL_UNCONSTRAINED_MEMORY
  | TRACK_REGISTER_ACTIONS
  | TRACK_MEMORY_ACTIONS
  | TRACK_JMP_ACTIONS
  | TRACK_CONSTRAINT_ACTIONS
  | BYPASS_UNSUPPORTED_SYSCALL
  | Engine_option string

text \<open>
  A state object: its architecture, its registers by name (\<open>registers.load\<close>;
  \<open>regs.sp\<close> and \<open>regs.bp\<close> are the registers \<open>sp\<close> and \<open>bp\<close>), the writes made to
  its memory (address and value, newest first), its path constraints, its options and
  the time limit of its solver in milliseconds.
\<close>

record sim_state =
  state_arch :: arch
  registers :: "string \<Rightarrow> ast"
  memory :: "(ast \<times> ast) list"
  constraints :: "constraint list"
  options :: "sim_option set"
  solver_timeout :: nat

text \<open>
  State objects are mutable and shared by reference, so they live in a store: \<open>cell h r\<close>
  is the object at reference \<open>r\<close>, and the references below \<open>next_ref h\<close> are the ones
  in use.
\<close>

type_synonym ref = nat

record heap =
  cell :: "ref \<Rightarrow> sim_state"
  next_ref :: ref

text \<open>Allocation of a new object with a given content.\<close>

definition new_state :: "heap \<Rightarrow> sim_state \<Rightarrow> heap \<times> ref" where
  "new_state h s = (h\<lparr>cell := (cell h)(next_ref h := s), next_ref := Suc (next_ref h)\<rparr>, next_ref h)"

text \<open>\<open>state.copy()\<close>: a new object with the content of the old one.\<close>

definition state_copy :: "heap \<Rightarrow> ref \<Rightarrow> heap \<times> ref" where
  "state_copy h r = new_state h (cell h r)"

text \<open>In-place update of the object at a reference.\<close>

definition update_state :: "heap \<Rightarrow> ref \<Rightarrow> (sim_state \<Rightarrow> sim_state) \<Rightarrow> heap" where
  "update_state h r f = h\<lparr>cell := (cell h)(r := f (cell h r))\<rparr>"

text \<open>\<open>state.add_constraints(c)\<close>.\<close>

definition add_constraints :: "heap \<Rightarrow> ref \<Rightarrow> constraint \<Rightarrow> heap" where
  "add_constraints h r c = update_state h r (\<lambda>s. s\<lparr>constraints := constraints s @ [c]\<rparr>)"

text \<open>\<open>state.options.add(o)\<close>.\<close>

definition options_add :: "heap \<Rightarrow> ref \<Rightarrow> sim_option \<Rightarrow> heap" where
  "options_add h r opt = update_state h r (\<lambda>s. s\<lparr>options := insert opt (options s)\<rparr>)"

section \<open>The solver\<close>

text \<open>
  The solver belongs to the execution engine and is a parameter of the model.
  \<open>satisfiable slv s extra\<close> is \<open>s.se.satisfiable(extra_constraints=extra)\<close> and
  \<open>any_n_int slv s e n\<close> is \<open>s.se.any_n_int(e, n)\<close>, both on a state with content \<open>s\<close>;
  \<open>se_BVS slv name size\<close> is \<open>se.BVS(name, size)\<close>, a new symbolic root.
  Nothing is assumed of them: a query that times out may answer anything.
\<close>

record solver =
  satisfiable :: "sim_state \<Rightarrow> constraint list \<Rightarrow> bool"
  any_n_int :: "sim_state \<Rightarrow> ast \<Rightarrow> nat \<Rightarrow> int list"
  se_BVS :: "string \<Rightarrow> nat \<Rightarrow> ast"

section \<open>Unconstrained-value heuristic: \<open>unconstrained_check\<close>\<close>

text \<open>
  Python's \<open>s * k\<close> on a string and \<open>int(s, 2)\<close> on a string of binary digits.
\<close>

definition str_mul :: "string \<Rightarrow> nat \<Rightarrow> string" where
  "str_mul s k = concat (replicate k s)"

definition int_base2 :: "string \<Rightarrow> int" where
  "int_base2 s = foldl (\<lambda>acc c. 2 * acc + (if c = CHR ''1'' then 1 else 0)) 0 s"

text \<open>
  The five probe values for an expression of width \<open>sz\<close> (the source's \<open>size\<close>);
  \<open>1 << size\<close> is \<open>2 ^ size\<close>.
\<close>

definition test_val_0 :: "nat \<Rightarrow> int" where
  "test_val_0 sz = 0x0"

definition test_val_1 :: "nat \<Rightarrow> int" where
  "test_val_1 sz = 2 ^ sz - 1"

definition test_val_2 :: "nat \<Rightarrow> int" where
  "test_val_2 sz = int_base2 (str_mul ''1010'' 16) mod 2 ^ sz"

definition test_val_3 :: "nat \<Rightarrow> int" where
  "test_val_3 sz = int_base2 (str_mul ''0101'' 16) mod 2 ^ sz"

definition test_val_4 :: "nat \<Rightarrow> int" where
  "test_val_4 sz =
     int_base2 (str_mul ''1001'' 2 @ str_mul ''1010'' 2 @ str_mul ''1011'' 2 @ str_mul ''1100'' 2
                @ str_mul ''1101'' 2 @ str_mul ''1110'' 2 @ str_mul ''1110'' 2 @ str_mul ''0001'' 2)
       mod 2 ^ sz"

text \<open>The state is only read: each query passes its equation as an extra constraint.\<close>

definition unconstrained_check :: "solver \<Rightarrow> sim_state \<Rightarrow> ast \<Rightarrow> bool" where
  "unconstrained_check slv s a =
     (let sz = ast_size a in
      if \<not> satisfiable slv s [C_eq_int a (test_val_0 sz)] then False
      else if \<not> satisfiable slv s [C_eq_int a (test_val_1 sz)] then False
      else if \<not> satisfiable slv s [C_eq_int a (test_val_2 sz)] then False
      else if \<not> satisfiable slv s [C_eq_int a (test_val_3 sz)] then False
      else if \<not> satisfiable slv s [C_eq_int a (test_val_4 sz)] then False
      else True)"

section \<open>Controllability prober: \<open>get_ast_controllers\<close>\<close>

text \<open>\<open>0x4141414141414141 % (2 << bits)\<close>; \<open>2 << bits\<close> is \<open>2 * 2 ^ bits\<close>.\<close>

definition sentinel :: "nat \<Rightarrow> int" where
  "sentinel b = 0x4141414141414141 mod (2 * 2 ^ b)"

text \<open>
  The inner loops: for each register of \<open>regs\<close>, in order, skip it when its value in
  the copy is not symbolic, and otherwise add to the copy the constraint that its value
  equals \<open>test_val\<close>.
\<close>

fun pin_registers :: "heap \<Rightarrow> ref \<Rightarrow> int \<Rightarrow> string list \<Rightarrow> heap" where
  "pin_registers h constrained_copy test_val [] = h"
| "pin_registers h constrained_copy test_val (reg # regs) =
     (if \<not> symbolic (registers (cell h constrained_copy) reg)
      then pin_registers h constrained_copy test_val regs
      else pin_registers
             (add_constraints h constrained_copy
                (C_eq_int (registers (cell h constrained_copy) reg) test_val))
             constrained_copy test_val regs)"

text \<open>Lines 39 to 43: the copy of the state with every symbolic dependency pinned.\<close>

definition pinned_copy :: "heap \<Rightarrow> ref \<Rightarrow> string list \<Rightarrow> heap \<times> ref" where
  "pinned_copy h test_state reg_deps =
     (let test_val = sentinel (bits (state_arch (cell h test_state)));
          (h1, constrained_copy) = state_copy h test_state
      in (pin_registers h1 constrained_copy test_val reg_deps, constrained_copy))"

text \<open>
  The second loop, over the registers still to try: a fresh copy of the state, every
  other dependency pinned, and the register recorded when the heuristic accepts.
\<close>

fun controllers_loop ::
  "solver \<Rightarrow> heap \<Rightarrow> ref \<Rightarrow> ast \<Rightarrow> string list \<Rightarrow> int \<Rightarrow> string list \<Rightarrow> string list
     \<Rightarrow> heap \<times> string list" where
  "controllers_loop slv h test_state a reg_deps test_val [] controllers = (h, controllers)"
| "controllers_loop slv h test_state a reg_deps test_val (reg # rest) controllers =
     (let (h1, constrained_copy) = state_copy h test_state;
          h2 = pin_registers h1 constrained_copy test_val (filter (\<lambda>r. r \<noteq> reg) reg_deps)
      in if unconstrained_check slv (cell h2 constrained_copy) a
         then controllers_loop slv h2 test_state a reg_deps test_val rest (controllers @ [reg])
         else controllers_loop slv h2 test_state a reg_deps test_val rest controllers)"

text \<open>
  \<open>reg_deps\<close> is the dependency set in its iteration order.  The result is the store
  after the call and the list of controllers.
\<close>

definition get_ast_controllers ::
  "solver \<Rightarrow> heap \<Rightarrow> ref \<Rightarrow> ast \<Rightarrow> string list \<Rightarrow> heap \<times> string list" where
  "get_ast_controllers slv h test_state a reg_deps =
     (let test_val = sentinel (bits (state_arch (cell h test_state)));
          controllers = []
      in if \<not> symbolic a then (h, controllers)
         else
           let (h2, constrained_copy) = pinned_copy h test_state reg_deps
           in if length (any_n_int slv (cell h2 constrained_copy) a 2) > 1 then (h2, controllers)
              else controllers_loop slv h2 test_state a reg_deps test_val reg_deps controllers)"

section \<open>Paths and the execution engine\<close>

text \<open>
  A path refers to a state object and has an address; \<open>errored\<close> and \<open>path_error\<close> are
  \<open>p.errored\<close> and \<open>p.error\<close>.
\<close>

record path =
  path_state :: ref
  errored :: bool
  path_error :: string
  addr :: int

text \<open>
  What \<open>p.step()\<close> does: it raises \<open>simuvex.UnsupportedSyscallError\<close>, or it leaves the
  lists \<open>p.successors\<close> (also its return value) and \<open>p.unconstrained_successors\<close>.
\<close>

datatype step_outcome =
    UnsupportedSyscallError
  | Stepped "path list" "path list"

text \<open>
  The project: its architecture, the engine's state and path factories, its stepping
  and its hook table, and the two option sets \<open>simuvex.o.resilience_options\<close> and
  \<open>simuvex.o.simplification\<close>.  All of it is the engine's and a parameter of the
  model.  \<open>blank_state prj add remove\<close> is the content of the state that
  \<open>factory.blank_state(add_options=add, remove_options=remove)\<close> creates;
  \<open>path_step\<close> works on the store, where it may create the successors' states.
\<close>

record project =
  project_arch :: arch
  blank_state :: "sim_option set \<Rightarrow> sim_option set \<Rightarrow> sim_state"
  factory_path :: "heap \<Rightarrow> ref \<Rightarrow> path"
  path_step :: "heap \<Rightarrow> path \<Rightarrow> heap \<times> step_outcome"
  is_hooked :: "int \<Rightarrow> bool"
  resilience_options :: "sim_option set"
  simplification :: "sim_option set"

section \<open>Entry-state builder: \<open>make_initial_state\<close>\<close>

definition make_initial_state :: "solver \<Rightarrow> project \<Rightarrow> heap \<Rightarrow> nat \<Rightarrow> heap \<times> ref" where
  "make_initial_state slv prj h stack_length =
     (let (h1, initial_state) =
            new_state h
              (blank_state prj
                 {AVOID_MULTIVALUED_READS, AVOID_MULTIVALUED_WRITES,
                  NO_SYMBOLIC_JUMP_RESOLUTION, CGC_NO_SYMBOLIC_RECEIVE_LENGTH,
                  NO_SYMBOLIC_SYSCALL_RESOLUTION, TRACK_ACTION_HISTORY}
                 (resilience_options prj \<union> simplification prj));
          h2 = update_state h1 initial_state
                 (\<lambda>s. s\<lparr>options := options s - {CGC_ZERO_FILL_UNCONSTRAINED_MEMORY}\<rparr>);
          h3 = update_state h2 initial_state
                 (\<lambda>s. s\<lparr>options := options s \<union>
                    {TRACK_REGISTER_ACTIONS, TRACK_MEMORY_ACTIONS,
                     TRACK_JMP_ACTIONS, TRACK_CONSTRAINT_ACTIONS}\<rparr>);
          symbolic_stack = se_BVS slv ''symbolic_stack'' (bits (project_arch prj) * stack_length);
          h4 = update_state h3 initial_state
                 (\<lambda>s. s\<lparr>memory := (registers s ''sp'', symbolic_stack) # memory s\<rparr>);
          h5 = update_state h4 initial_state
                 (\<lambda>s. s\<lparr>registers := (registers s)
                    (''bp'' := bv_add_int (registers s ''sp'') (20 * int (bits (state_arch s))))\<rparr>);
          h6 = update_state h5 initial_state (\<lambda>s. s\<lparr>solver_timeout := 500\<rparr>)
      in (h6, initial_state))"

section \<open>Stepper: \<open>step_to_unconstrained_successor\<close>\<close>

text \<open>
  The result is the store after the call and either the exception raised or the path
  returned.  The option is added to the object the caller passed, before anything else.
  \<open>path\<close> is \<open>None\<close> or a path; \<open>max_steps\<close> is a Python integer.  The last two lines
  index \<open>p.unconstrained_successors\<close> at 0, which raises \<open>IndexError\<close> on an empty
  list.
\<close>

function step_to_unconstrained_successor ::
  "project \<Rightarrow> heap \<Rightarrow> ref \<Rightarrow> path option \<Rightarrow> int \<Rightarrow> bool \<Rightarrow> heap \<times> (error + path)" where
  "step_to_unconstrained_successor prj h st path max_steps allow_simprocedures =
     (let h1 = options_add h st BYPASS_UNSUPPORTED_SYSCALL;
          p = (case path of None \<Rightarrow> factory_path prj h1 st | Some q \<Rightarrow> q)
      in if errored p then (h1, Inl (RopException (path_error p)))
         else
           (case path_step prj h1 p of
              (h2, UnsupportedSyscallError) \<Rightarrow>
                (h2, Inl (RopException ''Does not get to a single unconstrained successor''))
            | (h2, Stepped successors unconstrained_successors) \<Rightarrow>
                if length successors + length unconstrained_successors \<noteq> 1
                then (h2, Inl (RopException ''Does not get to a single successor''))
                else if length successors = 1 \<and> max_steps > 0 then
                  (if \<not> allow_simprocedures \<and> is_hooked prj (addr (successors ! 0))
                   then (h2, Inl (RopException ''Skipping simprocedure''))
                   else step_to_unconstrained_successor prj h2 (path_state (successors ! 0))
                          (Some (successors ! 0)) (max_steps - 1) allow_simprocedures)
                else if length successors = 1 \<and> max_steps = 0
                then (h2, Inl (RopException ''Does not get to an unconstrained successor''))
                else (case unconstrained_successors of
                        [] \<Rightarrow> (h2, Inl IndexError)
                      | u # _ \<Rightarrow> (h2, Inr u))))"
  by pat_completeness auto
termination
  by (relation "measure (\<lambda>(prj, h, st, path, max_steps, allow). nat max_steps)") auto

declare step_to_unconstrained_successor.simps [simp del]

text \<open>The failure kinds of the design, as the exceptions the stepper raises for them.\<close>

definition AmbiguousSuccessor :: error where
  "AmbiguousSuccessor = RopException ''Does not get to a single successor''"

definition BudgetExhausted :: error where
  "BudgetExhausted = RopException ''Does not get to an unconstrained successor''"

definition HookedProcedure :: error where
  "HookedProcedure = RopException ''Skipping simprocedure''"

definition UnsupportedSyscall :: error where
  "UnsupportedSyscall = RopException ''Does not get to a single unconstrained successor''"

section \<open>What the frame property needs of the engine\<close>

text \<open>
  Stepping is the engine's.  \<open>engine_preserves_states\<close> says that a step changes no
  state object that existed before it, only creates objects, and that the states of the
  successors it returns are objects it created.
\<close>

definition engine_preserves_states :: "project \<Rightarrow> bool" where
  "engine_preserves_states prj =
     (\<forall>h p.
        next_ref h \<le> next_ref (fst (path_step prj h p)) \<and>
        (\<forall>r. r < next_ref h \<longrightarrow> cell (fst (path_step prj h p)) r = cell h r) \<and>
        (\<forall>successors unconstrained_successors.
           snd (path_step prj h p) = Stepped successors unconstrained_successors \<longrightarrow>
           (\<forall>q \<in> set successors \<union> set unconstrained_successors. next_ref h \<le> path_state q)))"

section \<open>Readings of the specification used in comparisons\<close>

text \<open>
  The nibbles (4-bit groups) of the low \<open>4 * k\<close> bits of a value, lowest first, and
  whether every element of a list differs from the next one.
\<close>

fun nibbles :: "int \<Rightarrow> nat \<Rightarrow> int list" where
  "nibbles v 0 = []"
| "nibbles v (Suc k) = (v mod 16) # nibbles (v div 16) k"

fun neighbours_differ :: "'a list \<Rightarrow> bool" where
  "neighbours_differ (x # y # xs) = (x \<noteq> y \<and> neighbours_differ (y # xs))"
| "neighbours_differ xs = True"

text \<open>Whether a list is made of pairs of equal elements.\<close>

fun equal_pairs :: "'a list \<Rightarrow> bool" where
  "equal_pairs [] = True"
| "equal_pairs [x] = False"
| "equal_pairs (x # y # xs) = (x = y \<and> equal_pairs xs)"

text \<open>
  A 4-bit pattern repeated to a width of \<open>n\<close> bits, as the specification words the
  third and fourth probe: the first \<open>n\<close> digits of the pattern written over and over.
\<close>

definition spec_repeated_pattern :: "string \<Rightarrow> nat \<Rightarrow> int" where
  "spec_repeated_pattern pat n = int_base2 (take n (str_mul pat n))"

section \<open>A small solver and a small engine, for concrete runs\<close>

text \<open>
  \<open>enum_solver\<close> decides constraints by trying every value of every symbolic root; it
  is usable on narrow expressions only.
\<close>

fun typed_variables :: "ast \<Rightarrow> (string \<times> nat) list" where
  "typed_variables (BVV v n) = []"
| "typed_variables (BVS x n) = [(x, n)]"
| "typed_variables (BV_Add a b) = typed_variables a @ typed_variables b"
| "typed_variables (BV_And a b) = typed_variables a @ typed_variables b"

fun constraint_variables :: "constraint \<Rightarrow> (string \<times> nat) list" where
  "constraint_variables (C_eq_int a v) = typed_variables a"
| "constraint_variables (C_eq a b) = typed_variables a @ typed_variables b"
| "constraint_variables (C_ne a b) = typed_variables a @ typed_variables b"

fun assignments :: "(string \<times> nat) list \<Rightarrow> (string \<Rightarrow> nat) list" where
  "assignments [] = [\<lambda>x. 0]"
| "assignments ((x, n) # xs) =
     concat (map (\<lambda>env. map (\<lambda>v. env(x := v)) [0 ..< 2 ^ n]) (assignments xs))"

definition models :: "constraint list \<Rightarrow> ast \<Rightarrow> (string \<Rightarrow> nat) list" where
  "models cs a =
     filter (\<lambda>env. list_all (holds env) cs)
       (assignments (remdups (concat (map constraint_variables cs) @ typed_variables a)))"

definition enum_solver :: solver where
  "enum_solver =
     \<lparr>satisfiable = (\<lambda>s extra. models (constraints s @ extra) (BVV 0 0) \<noteq> []),
      any_n_int = (\<lambda>s a n. take n (remdups (map (\<lambda>env. int (ast_eval env a)) (models (constraints s) a)))),
      se_BVS = BVS\<rparr>"

text \<open>
  \<open>toy_project\<close> runs a program of five kinds of instruction, one per address: a step
  makes one constrained successor at the next address, one unconstrained successor, two
  successors, none, or raises the unsupported-syscall error.  Successor states are
  copies of the state of the path.
\<close>

datatype toy_insn = Fall_through | Jump_free | Branch | Halt | Bad_syscall

definition toy_step :: "(int \<Rightarrow> toy_insn) \<Rightarrow> heap \<Rightarrow> path \<Rightarrow> heap \<times> step_outcome" where
  "toy_step prog h p =
     (case prog (addr p) of
        Fall_through \<Rightarrow>
          (let (h1, r) = state_copy h (path_state p)
           in (h1, Stepped [p\<lparr>path_state := r, addr := addr p + 1\<rparr>] []))
      | Jump_free \<Rightarrow>
          (let (h1, r) = state_copy h (path_state p)
           in (h1, Stepped [] [p\<lparr>path_state := r\<rparr>]))
      | Branch \<Rightarrow>
          (let (h1, r1) = state_copy h (path_state p);
               (h2, r2) = state_copy h1 (path_state p)
           in (h2, Stepped [p\<lparr>path_state := r1, addr := addr p + 1\<rparr>,
                            p\<lparr>path_state := r2, addr := addr p + 2\<rparr>] []))
      | Halt \<Rightarrow> (h, Stepped [] [])
      | Bad_syscall \<Rightarrow> (h, UnsupportedSyscallError))"

definition amd64 :: arch where
  "amd64 = \<lparr>bits = 64,
            register_names = [16 \<mapsto> ''rax'', 24 \<mapsto> ''rcx'', 32 \<mapsto> ''rdx'', 40 \<mapsto> ''rbx'',
                              48 \<mapsto> ''rsp'', 56 \<mapsto> ''rbp'']\<rparr>"

definition toy_blank_state :: "arch \<Rightarrow> sim_option set \<Rightarrow> sim_option set \<Rightarrow> sim_state" where
  "toy_blank_state a add remove =
     \<lparr>state_arch = a,
      registers = (\<lambda>r. BVV 0 (bits a))(''sp'' := BVV 0x7FFFFFFF0000 (bits a)),
      memory = [], constraints = [],
      options = ({CGC_ZERO_FILL_UNCONSTRAINED_MEMORY} \<union> add) - remove,
      solver_timeout = 0\<rparr>"

definition toy_project :: "arch \<Rightarrow> (int \<Rightarrow> toy_insn) \<Rightarrow> project" where
  "toy_project a prog =
     \<lparr>project_arch = a,
      blank_state = toy_blank_state a,
      factory_path = (\<lambda>h r. \<lparr>path_state = r, errored = False, path_error = [], addr = 0\<rparr>),
      path_step = toy_step prog,
      is_hooked = (\<lambda>a. False),
      resilience_options = {Engine_option ''resilience''},
      simplification = {Engine_option ''simplification''}\<rparr>"

text \<open>A store holding one state object, at reference 0.\<close>

definition single_heap :: "sim_state \<Rightarrow> heap" where
  "single_heap s = \<lparr>cell = (\<lambda>r. s), next_ref = 1\<rparr>"

text \<open>
  A 2-bit architecture and a state of it whose registers \<open>rax\<close> and \<open>rbx\<close> hold tagged
  symbolic roots, for runs of the prober on \<open>enum_solver\<close>.
\<close>

definition tiny_arch :: arch where
  "tiny_arch = \<lparr>bits = 2, register_names = [0 \<mapsto> ''rax'', 1 \<mapsto> ''rbx'']\<rparr>"

definition tiny_state :: sim_state where
  "tiny_state =
     \<lparr>state_arch = tiny_arch,
      registers = (\<lambda>r. BVV 0 2)(''rax'' := BVS ''sreg_rax-_1_2'' 2, ''rbx'' := BVS ''sreg_rbx-_2_2'' 2),
      memory = [], constraints = [], options = {}, solver_timeout = 500\<rparr>"

text \<open>
  A 32-bit architecture and a state of it whose register \<open>eax\<close> holds a tagged symbolic
  root.
\<close>

definition x86 :: arch where
  "x86 = \<lparr>bits = 32, register_names = [8 \<mapsto> ''eax'', 12 \<mapsto> ''ecx'']\<rparr>"

definition x86_state :: sim_state where
  "x86_state =
     \<lparr>state_arch = x86,
      registers = (\<lambda>r. BVV 0 32)(''eax'' := BVS ''sreg_eax-_1_32'' 32),
      memory = [], constraints = [], options = {}, solver_timeout = 500\<rparr>"

text \<open>
  The state that \<open>make_initial_state\<close> returns: the content of the object it created,
  in the store it leaves.
\<close>

definition built_state :: "solver \<Rightarrow> project \<Rightarrow> heap \<Rightarrow> nat \<Rightarrow> sim_state" where
  "built_state slv prj h stack_length =
     cell (fst (make_initial_state slv prj h stack_length))
          (snd (make_initial_state slv prj h stack_length))"

text \<open>
  The sum of the two tagged roots of \<open>tiny_state\<close>, and the path that the small
  engine makes of a state at reference 0.
\<close>

definition rax_plus_rbx :: ast where
  "rax_plus_rbx = BV_Add (BVS ''sreg_rax-_1_2'' 2) (BVS ''sreg_rbx-_2_2'' 2)"

definition start_path :: path where
  "start_path = \<lparr>path_state = 0, errored = False, path_error = [], addr = 0\<rparr>"

section \<open>Properties of the register resolver\<close>

lemma get_reg_name_loop_Inr:
  "get_reg_name_loop a orig r = Inr nm \<longleftrightarrow>
     (\<exists>b. register_names a b = Some nm \<and> b \<le> r \<and> 0 \<le> b \<and> orig - int (bits a div 8) \<le> b
          \<and> (\<forall>b'. b < b' \<and> b' \<le> r \<longrightarrow> register_names a b' = None))"
proof (induction a orig r rule: get_reg_name_loop.induct)
  case (1 a orig r)
  show ?case
  proof (cases "r \<ge> 0 \<and> r \<ge> orig - int (bits a div 8)")
    case False
    then show ?thesis
      by (subst get_reg_name_loop.simps) auto
  next
    case True
    show ?thesis
    proof (cases "register_names a r")
      case None
      have step: "get_reg_name_loop a orig r = get_reg_name_loop a orig (r - 1)"
        using True None by (subst get_reg_name_loop.simps) simp
      have le: "b \<le> r - 1" if "b \<le> r" "register_names a b = Some nm" for b
      proof -
        from that None have "b \<noteq> r" by auto
        with that show ?thesis by simp
      qed
      have all: "(\<forall>b'. b < b' \<and> b' \<le> r \<longrightarrow> register_names a b' = None)
               \<longleftrightarrow> (\<forall>b'. b < b' \<and> b' \<le> r - 1 \<longrightarrow> register_names a b' = None)" for b
      proof
        assume "\<forall>b'. b < b' \<and> b' \<le> r \<longrightarrow> register_names a b' = None"
        then show "\<forall>b'. b < b' \<and> b' \<le> r - 1 \<longrightarrow> register_names a b' = None" by simp
      next
        assume h: "\<forall>b'. b < b' \<and> b' \<le> r - 1 \<longrightarrow> register_names a b' = None"
        show "\<forall>b'. b < b' \<and> b' \<le> r \<longrightarrow> register_names a b' = None"
        proof (intro allI impI)
          fix b' assume b': "b < b' \<and> b' \<le> r"
          show "register_names a b' = None"
          proof (cases "b' = r")
            case True then show ?thesis using None by simp
          next
            case False
            with b' have "b' \<le> r - 1" by simp
            with h b' show ?thesis by blast
          qed
        qed
      qed
      show ?thesis
        unfolding step "1.IH"[OF True None] all[symmetric]
        using le by (metis zle_diff1_eq order_less_imp_le)
    next
      case (Some n)
      have step: "get_reg_name_loop a orig r = Inr n"
        using True Some by (subst get_reg_name_loop.simps) simp
      show ?thesis
      proof
        assume "get_reg_name_loop a orig r = Inr nm"
        with step have "n = nm" by simp
        with True Some show "\<exists>b. register_names a b = Some nm \<and> b \<le> r \<and> 0 \<le> b \<and> orig - int (bits a div 8) \<le> b
          \<and> (\<forall>b'. b < b' \<and> b' \<le> r \<longrightarrow> register_names a b' = None)"
          by (intro exI[of _ r]) auto
      next
        assume "\<exists>b. register_names a b = Some nm \<and> b \<le> r \<and> 0 \<le> b \<and> orig - int (bits a div 8) \<le> b
          \<and> (\<forall>b'. b < b' \<and> b' \<le> r \<longrightarrow> register_names a b' = None)"
        then obtain b where b: "register_names a b = Some nm" "b \<le> r"
          "\<forall>b'. b < b' \<and> b' \<le> r \<longrightarrow> register_names a b' = None" by blast
        have "b = r"
        proof (rule ccontr)
          assume "b \<noteq> r"
          with b(2) have "b < r" by simp
          with b(3) have "register_names a r = None" by simp
          with Some show False by simp
        qed
        with b(1) Some step show "get_reg_name_loop a orig r = Inr nm" by simp
      qed
    qed
  qed
qed

lemma get_reg_name_loop_Inl:
  "get_reg_name_loop a orig r = Inl e \<Longrightarrow>
     e = RegNotFoundException (''register '' @ str_int orig @ '' not found'')"
proof (induction a orig r rule: get_reg_name_loop.induct)
  case (1 a orig r)
  then show ?case
    by (subst (asm) (2) get_reg_name_loop.simps) (auto split: if_splits option.splits)
qed

text \<open>
  Claim C9.  Resolving the base offset of a register of the table returns the name of
  that register.  Offsets of the register file are not negative.
\<close>

theorem get_reg_name_base_offset:
  assumes "register_names a b = Some name" and "0 \<le> b"
  shows "get_reg_name a (Some b) = Inr name"
  using assms by (simp add: get_reg_name_def get_reg_name_loop.simps)

text \<open>
  The theorem at the offset 24 of \<open>rcx\<close>.
\<close>

theorem get_reg_name_base_offset_witness:
  "register_names amd64 24 = Some ''rcx'' \<and> (0::int) \<le> 24 \<and> get_reg_name amd64 (Some 24) = Inr ''rcx''"
proof -
  have h: "register_names amd64 24 = Some ''rcx''" by (simp add: amd64_def)
  show ?thesis using h get_reg_name_base_offset [OF h] by simp
qed

text \<open>
  Claim C10.  For an offset that is not \<open>None\<close>, \<open>get_reg_name\<close> returns a name exactly
  when it is the name at the greatest offset \<open>b\<close> of the table with \<open>b \<le> off\<close>,
  \<open>0 \<le> b\<close> and \<open>off - arch.bits/8 \<le> b\<close>, and it raises the exception exactly when the
  table has no such offset.
\<close>

theorem get_reg_name_greatest_base:
  "(get_reg_name a (Some off) = Inr name \<longleftrightarrow>
      (\<exists>b. register_names a b = Some name \<and> candidate a off b \<and> (\<forall>b'. candidate a off b' \<longrightarrow> b' \<le> b)))
   \<and> ((\<exists>e. get_reg_name a (Some off) = Inl e) \<longleftrightarrow> \<not> (\<exists>b. candidate a off b))"
proof (intro conjI)
  have gr: "(\<forall>b'. b < b' \<and> b' \<le> off \<longrightarrow> register_names a b' = None) \<longleftrightarrow> (\<forall>b'. candidate a off b' \<longrightarrow> b' \<le> b)"
    if "0 \<le> b" "off - int (bits a div 8) \<le> b" for b
  proof
    assume h: "\<forall>b'. b < b' \<and> b' \<le> off \<longrightarrow> register_names a b' = None"
    show "\<forall>b'. candidate a off b' \<longrightarrow> b' \<le> b"
    proof (intro allI impI, rule ccontr)
      fix b' assume c: "candidate a off b'" and "\<not> b' \<le> b"
      then have "b < b' \<and> b' \<le> off" by (simp add: candidate_def)
      with h have "register_names a b' = None" by blast
      with c show False by (auto simp: candidate_def)
    qed
  next
    assume h: "\<forall>b'. candidate a off b' \<longrightarrow> b' \<le> b"
    show "\<forall>b'. b < b' \<and> b' \<le> off \<longrightarrow> register_names a b' = None"
    proof (intro allI impI, rule ccontr)
      fix b' assume r: "b < b' \<and> b' \<le> off" and "register_names a b' \<noteq> None"
      with that have "candidate a off b'" by (auto simp: candidate_def)
      with h r show False by force
    qed
  qed
  show inr: "get_reg_name a (Some off) = Inr name \<longleftrightarrow>
      (\<exists>b. register_names a b = Some name \<and> candidate a off b \<and> (\<forall>b'. candidate a off b' \<longrightarrow> b' \<le> b))" for name
  proof
    assume "get_reg_name a (Some off) = Inr name"
    then obtain b where b: "register_names a b = Some name" "b \<le> off" "0 \<le> b"
        "off - int (bits a div 8) \<le> b" "\<forall>b'. b < b' \<and> b' \<le> off \<longrightarrow> register_names a b' = None"
      by (auto simp: get_reg_name_def get_reg_name_loop_Inr)
    from b have "candidate a off b" by (auto simp: candidate_def)
    moreover from b gr have "\<forall>b'. candidate a off b' \<longrightarrow> b' \<le> b" by blast
    ultimately show "\<exists>b. register_names a b = Some name \<and> candidate a off b \<and> (\<forall>b'. candidate a off b' \<longrightarrow> b' \<le> b)"
      using b(1) by blast
  next
    assume "\<exists>b. register_names a b = Some name \<and> candidate a off b \<and> (\<forall>b'. candidate a off b' \<longrightarrow> b' \<le> b)"
    then obtain b where b: "register_names a b = Some name" "candidate a off b" "\<forall>b'. candidate a off b' \<longrightarrow> b' \<le> b"
      by blast
    from b(2) have c: "b \<le> off" "0 \<le> b" "off - int (bits a div 8) \<le> b" by (auto simp: candidate_def)
    with gr b(3) have "\<forall>b'. b < b' \<and> b' \<le> off \<longrightarrow> register_names a b' = None" by blast
    with b(1) c show "get_reg_name a (Some off) = Inr name"
      unfolding get_reg_name_def option.case get_reg_name_loop_Inr by blast
  qed
  show "(\<exists>e. get_reg_name a (Some off) = Inl e) \<longleftrightarrow> \<not> (\<exists>b. candidate a off b)"
  proof
    assume "\<exists>e. get_reg_name a (Some off) = Inl e"
    then have no: "\<And>name. get_reg_name a (Some off) \<noteq> Inr name" by auto
    show "\<not> (\<exists>b. candidate a off b)"
    proof
      assume "\<exists>b. candidate a off b"
      then have ne: "{b. candidate a off b} \<noteq> {}" by blast
      have "{b. candidate a off b} \<subseteq> {0..off}" by (auto simp: candidate_def)
      then have fin: "finite {b. candidate a off b}" by (rule finite_subset) simp
      define m where "m = Max {b. candidate a off b}"
      have "m \<in> {b. candidate a off b}" unfolding m_def using fin ne by (rule Max_in)
      then have cm: "candidate a off m" by simp
      have "\<forall>b'. candidate a off b' \<longrightarrow> b' \<le> m" unfolding m_def using fin by simp
      moreover from cm obtain name where "register_names a m = Some name" by (auto simp: candidate_def)
      ultimately have "get_reg_name a (Some off) = Inr name" using cm inr by blast
      with no show False by blast
    qed
  next
    assume no: "\<not> (\<exists>b. candidate a off b)"
    show "\<exists>e. get_reg_name a (Some off) = Inl e"
    proof (cases "get_reg_name a (Some off)")
      case (Inl e) then show ?thesis by blast
    next
      case (Inr name)
      with inr no show ?thesis by blast
    qed
  qed
qed

text \<open>
  The theorem at offset 27, which lies inside \<open>rcx\<close> (base 24).
\<close>

theorem get_reg_name_greatest_base_witness:
  "get_reg_name amd64 (Some 27) = Inr ''rcx''
   \<and> candidate amd64 27 24
   \<and> (\<exists>b. register_names amd64 b = Some ''rcx'' \<and> candidate amd64 27 b
          \<and> (\<forall>b'. candidate amd64 27 b' \<longrightarrow> b' \<le> b))
   \<and> (\<exists>e. get_reg_name amd64 (Some 70) = Inl e)
   \<and> \<not> (\<exists>b. candidate amd64 70 b)"
proof -
  have 1: "get_reg_name amd64 (Some 27) = Inr ''rcx''"
    by (simp add: get_reg_name_def get_reg_name_loop.simps amd64_def)
  have 2: "candidate amd64 27 24"
    by (simp add: candidate_def amd64_def)
  have 3: "\<exists>e. get_reg_name amd64 (Some 70) = Inl e"
    by (simp add: get_reg_name_def get_reg_name_loop.simps amd64_def)
  have 4: "\<exists>b. register_names amd64 b = Some ''rcx'' \<and> candidate amd64 27 b
          \<and> (\<forall>b'. candidate amd64 27 b' \<longrightarrow> b' \<le> b)"
    using get_reg_name_greatest_base [of amd64 27 "''rcx''", THEN conjunct1, THEN iffD1, OF 1] .
  have 5: "\<not> (\<exists>b. candidate amd64 70 b)"
    using get_reg_name_greatest_base [of amd64 70 "''rcx''", THEN conjunct2, THEN iffD1, OF 3] .
  from 1 2 3 4 5 show ?thesis by (intro conjI)
qed

section \<open>Properties of the dependency extractor\<close>

lemma dependency_loop_eq:
  "dependency_loop vs acc =
     (if \<forall>v \<in> set vs. startswith v ''sreg_''
      then Dep_set (acc \<union> (\<lambda>v. split_dash_first (drop 5 v)) ` set vs)
      else Dep_list [])"
  by (induction vs arbitrary: acc) auto

text \<open>
  Claim C4.  When every root name starts with \<open>sreg_\<close>, \<open>get_ast_dependency\<close> returns
  the set of the register names decoded from the roots (the name without the prefix, up
  to its first \<open>-\<close>); when some root name does not, it returns the empty list.  The
  same holds of the loop on any list of root names, so the order in which the set of
  roots is visited does not matter.
\<close>

theorem get_ast_dependency_tags:
  "get_ast_dependency a =
     (if \<forall>v \<in> set (variables a). startswith v ''sreg_''
      then Dep_set ((\<lambda>v. split_dash_first (drop 5 v)) ` set (variables a))
      else Dep_list [])
   \<and> dependency_loop vs {} =
     (if \<forall>v \<in> set vs. startswith v ''sreg_''
      then Dep_set ((\<lambda>v. split_dash_first (drop 5 v)) ` set vs)
      else Dep_list [])"
  by (simp add: get_ast_dependency_def dependency_loop_eq)

text \<open>
  The theorem on two tagged roots, in both orders, and on a tagged root with an
  untagged one.
\<close>

theorem get_ast_dependency_tags_witness:
  "get_ast_dependency (BV_Add (BVS ''sreg_rax-_1_64'' 64) (BVS ''sreg_rbx-_2_64'' 64))
     = Dep_set {''rbx'', ''rax''}
   \<and> dependency_loop [''sreg_rbx-_2_64'', ''sreg_rax-_1_64''] {} = Dep_set {''rbx'', ''rax''}
   \<and> dependency_loop [''sreg_rax-_1_64'', ''symbolic_stack_3_64''] {} = Dep_list []"
proof -
  have 1: "get_ast_dependency (BV_Add (BVS ''sreg_rax-_1_64'' 64) (BVS ''sreg_rbx-_2_64'' 64))
     = Dep_set {''rbx'', ''rax''}"
    by (simp add: get_ast_dependency_def startswith_def split_dash_first_def)
  have 2: "dependency_loop [''sreg_rbx-_2_64'', ''sreg_rax-_1_64''] {} = Dep_set {''rbx'', ''rax''}"
    using get_ast_dependency_tags [of "BVV 0 0" "[''sreg_rbx-_2_64'', ''sreg_rax-_1_64'']", THEN conjunct2]
    by (simp add: startswith_def split_dash_first_def)
  have 3: "dependency_loop [''sreg_rax-_1_64'', ''symbolic_stack_3_64''] {} = Dep_list []"
    using get_ast_dependency_tags [of "BVV 0 0" "[''sreg_rax-_1_64'', ''symbolic_stack_3_64'']", THEN conjunct2]
    by (simp add: startswith_def)
  from 1 2 3 show ?thesis by (intro conjI)
qed

section \<open>Properties of the unconstrained-value heuristic\<close>

lemma int_base2_1010: "int_base2 (str_mul ''1010'' 16) = 0xAAAAAAAAAAAAAAAA"
  by (simp add: int_base2_def str_mul_def eval_nat_numeral)

lemma int_base2_0101: "int_base2 (str_mul ''0101'' 16) = 0x5555555555555555"
  by (simp add: int_base2_def str_mul_def eval_nat_numeral)

lemma int_base2_fifth:
  "int_base2 (str_mul ''1001'' 2 @ str_mul ''1010'' 2 @ str_mul ''1011'' 2 @ str_mul ''1100'' 2
                @ str_mul ''1101'' 2 @ str_mul ''1110'' 2 @ str_mul ''1110'' 2 @ str_mul ''0001'' 2)
   = 0x99AABBCCDDEEEE11"
  by (simp add: int_base2_def str_mul_def eval_nat_numeral)

lemma test_val_4_64: "test_val_4 64 = 0x99AABBCCDDEEEE11"
  by (simp add: test_val_4_def int_base2_fifth)

lemma nibbles_numeral: "nibbles v (numeral k) = (v mod 16) # nibbles (v div 16) (pred_numeral k)"
  by (simp add: numeral_eq_Suc)

lemma nibbles_test_val_4:
  "nibbles (test_val_4 64) 16 = [1, 1, 14, 14, 14, 14, 13, 13, 12, 12, 11, 11, 10, 10, 9, 9]"
  unfolding test_val_4_64 by (simp add: nibbles_numeral)

text \<open>
  Claim C2, as amended.  \<open>unconstrained_check\<close> returns true exactly when the solver
  answers that each of five values is satisfiable for the expression: 0, \<open>2 ^ n - 1\<close>,
  the 64-bit pattern 1010... reduced modulo \<open>2 ^ n\<close>, the 64-bit pattern 0101...
  reduced modulo \<open>2 ^ n\<close>, and a fixed 64-bit pattern reduced modulo \<open>2 ^ n\<close>.  The
  nibbles of that fixed pattern come in equal pairs: each of its bytes is one nibble
  written twice.
\<close>

theorem unconstrained_check_probes:
  "(unconstrained_check slv s a \<longleftrightarrow>
      satisfiable slv s [C_eq_int a 0]
    \<and> satisfiable slv s [C_eq_int a (2 ^ ast_size a - 1)]
    \<and> satisfiable slv s [C_eq_int a (0xAAAAAAAAAAAAAAAA mod 2 ^ ast_size a)]
    \<and> satisfiable slv s [C_eq_int a (0x5555555555555555 mod 2 ^ ast_size a)]
    \<and> satisfiable slv s [C_eq_int a (test_val_4 64 mod 2 ^ ast_size a)])
   \<and> equal_pairs (nibbles (test_val_4 64) 16)"
proof
  have tv4: "test_val_4 (ast_size a) = test_val_4 64 mod 2 ^ ast_size a"
    unfolding test_val_4_64 by (simp add: test_val_4_def int_base2_fifth)
  show "unconstrained_check slv s a \<longleftrightarrow>
      satisfiable slv s [C_eq_int a 0]
    \<and> satisfiable slv s [C_eq_int a (2 ^ ast_size a - 1)]
    \<and> satisfiable slv s [C_eq_int a (0xAAAAAAAAAAAAAAAA mod 2 ^ ast_size a)]
    \<and> satisfiable slv s [C_eq_int a (0x5555555555555555 mod 2 ^ ast_size a)]
    \<and> satisfiable slv s [C_eq_int a (test_val_4 64 mod 2 ^ ast_size a)]"
    unfolding tv4 [symmetric]
    by (simp add: unconstrained_check_def Let_def test_val_0_def test_val_1_def
                test_val_2_def test_val_3_def int_base2_1010 int_base2_0101)
  show "equal_pairs (nibbles (test_val_4 64) 16)"
    unfolding nibbles_test_val_4 by simp
qed

lemma upt_4: "[0 ..< 4] = [0, 1, 2, 3::nat]"
  by (simp add: upt_conv_Cons eval_nat_numeral)

lemma sat_tiny:
  "v \<in> {0, 1, 2, 3} \<Longrightarrow> satisfiable enum_solver tiny_state [C_eq_int (BVS ''sreg_rax-_1_2'' 2) v]"
  by (auto simp: enum_solver_def models_def tiny_state_def upt_4)

text \<open>
  The theorem on the 2-bit root \<open>sreg_rax\<close> in a state without constraints, where the
  enumerating solver finds all five values.
\<close>

theorem unconstrained_check_probes_witness:
  "unconstrained_check enum_solver tiny_state (BVS ''sreg_rax-_1_2'' 2)
   \<and> satisfiable enum_solver tiny_state [C_eq_int (BVS ''sreg_rax-_1_2'' 2) (test_val_4 64 mod 2 ^ 2)]
   \<and> equal_pairs (nibbles (test_val_4 64) 16)"
proof -
  let ?a = "BVS ''sreg_rax-_1_2'' 2"
  have 0: "satisfiable enum_solver tiny_state [C_eq_int ?a 0]"
    by (rule sat_tiny) simp
  have 1: "satisfiable enum_solver tiny_state [C_eq_int ?a (2 ^ ast_size ?a - 1)]"
    by (simp, rule sat_tiny) simp
  have 2: "satisfiable enum_solver tiny_state [C_eq_int ?a (0xAAAAAAAAAAAAAAAA mod 2 ^ ast_size ?a)]"
    by (simp, rule sat_tiny) simp
  have 3: "satisfiable enum_solver tiny_state [C_eq_int ?a (0x5555555555555555 mod 2 ^ ast_size ?a)]"
    by (simp, rule sat_tiny) simp
  have 4: "satisfiable enum_solver tiny_state [C_eq_int ?a (test_val_4 64 mod 2 ^ ast_size ?a)]"
    unfolding test_val_4_64 by (simp, rule sat_tiny) simp
  from 0 1 2 3 4 unconstrained_check_probes [of enum_solver tiny_state ?a]
  have "unconstrained_check enum_solver tiny_state ?a" by blast
  moreover from 4 have "satisfiable enum_solver tiny_state [C_eq_int ?a (test_val_4 64 mod 2 ^ 2)]"
    by simp
  moreover have "equal_pairs (nibbles (test_val_4 64) 16)"
    using unconstrained_check_probes [of enum_solver tiny_state ?a] by blast
  ultimately show ?thesis by blast
qed

text \<open>
  The claim as worded fails twice.  At width 128 the third probe is the 64-bit pattern,
  not the pattern repeated to 128 bits; and the fifth probe at width 64 has equal
  neighbouring nibbles.
\<close>

theorem probe_patterns_counterexample:
  "test_val_2 128 \<noteq> spec_repeated_pattern ''1010'' 128
   \<and> \<not> neighbours_differ (nibbles (test_val_4 64) 16)"
proof -
  have "spec_repeated_pattern ''1010'' 128 = 0xAAAAAAAAAAAAAAAAAAAAAAAAAAAAAAAA"
    by (simp add: spec_repeated_pattern_def int_base2_def str_mul_def eval_nat_numeral)
  moreover have "test_val_2 128 = 0xAAAAAAAAAAAAAAAA"
    by (simp add: test_val_2_def int_base2_1010)
  ultimately show ?thesis
    unfolding nibbles_test_val_4 by simp
qed

section \<open>Properties of the store\<close>

lemma state_copy_ref: "state_copy h r = (h1, c) \<Longrightarrow> c = next_ref h"
  by (auto simp: state_copy_def new_state_def)

lemma state_copy_next: "state_copy h r = (h1, c) \<Longrightarrow> next_ref h1 = Suc (next_ref h)"
  by (auto simp: state_copy_def new_state_def)

lemma state_copy_cell:
  "state_copy h r = (h1, c) \<Longrightarrow> cell h1 x = (if x = next_ref h then cell h r else cell h x)"
  by (auto simp: state_copy_def new_state_def)

lemma add_constraints_cell:
  "cell (add_constraints h c k) x =
     (if x = c then (cell h c)\<lparr>constraints := constraints (cell h c) @ [k]\<rparr> else cell h x)"
  by (simp add: add_constraints_def update_state_def)

lemma add_constraints_next: "next_ref (add_constraints h c k) = next_ref h"
  by (simp add: add_constraints_def update_state_def)

lemma options_add_cell:
  "cell (options_add h c k) x =
     (if x = c then (cell h c)\<lparr>options := insert k (options (cell h c))\<rparr> else cell h x)"
  by (simp add: options_add_def update_state_def)

lemma options_add_next: "next_ref (options_add h c k) = next_ref h"
  by (simp add: options_add_def update_state_def)

lemma pin_registers_next: "next_ref (pin_registers h c tv regs) = next_ref h"
  by (induction regs arbitrary: h) (simp_all add: add_constraints_next)

lemma pin_registers_other: "x \<noteq> c \<Longrightarrow> cell (pin_registers h c tv regs) x = cell h x"
  by (induction regs arbitrary: h) (simp_all add: add_constraints_cell)

lemma pin_registers_cell:
  "cell (pin_registers h c tv regs) c =
     (cell h c)\<lparr>constraints := constraints (cell h c) @
        map (\<lambda>r. C_eq_int (registers (cell h c) r) tv)
            (filter (\<lambda>r. symbolic (registers (cell h c) r)) regs)\<rparr>"
proof (induction regs arbitrary: h)
  case Nil
  show ?case by simp
next
  case (Cons reg regs)
  show ?case
  proof (cases "symbolic (registers (cell h c) reg)")
    case False
    then show ?thesis using Cons.IH [of h] by simp
  next
    case True
    then show ?thesis
      using Cons.IH [of "add_constraints h c (C_eq_int (registers (cell h c) reg) tv)"]
      by (simp add: add_constraints_cell)
  qed
qed

section \<open>Properties of the controllability prober\<close>

lemma controllers_loop_frame:
  "N \<le> next_ref h \<Longrightarrow> r < N \<Longrightarrow>
     cell (fst (controllers_loop slv h ts a reg_deps tv todo acc)) r = cell h r"
proof (induction todo arbitrary: h acc)
  case Nil
  show ?case by simp
next
  case (Cons reg rest)
  obtain h1 c where cp: "state_copy h ts = (h1, c)" by (cases "state_copy h ts")
  define h2 where "h2 = pin_registers h1 c tv (filter (\<lambda>x. x \<noteq> reg) reg_deps)"
  have c: "c = next_ref h" using cp by (rule state_copy_ref)
  have n2: "N \<le> next_ref h2"
    using Cons.prems(1) state_copy_next [OF cp] by (simp add: h2_def pin_registers_next)
  have "r \<noteq> c" using Cons.prems c by simp
  then have "cell h2 r = cell h1 r" unfolding h2_def by (rule pin_registers_other)
  also have "\<dots> = cell h r" using state_copy_cell [OF cp, of r] Cons.prems by simp
  finally have keep: "cell h2 r = cell h r" .
  show ?case
  proof (cases "unconstrained_check slv (cell h2 c) a")
    case True
    then have "controllers_loop slv h ts a reg_deps tv (reg # rest) acc
           = controllers_loop slv h2 ts a reg_deps tv rest (acc @ [reg])"
      by (simp add: cp h2_def)
    with Cons.IH [OF n2 Cons.prems(2), of "acc @ [reg]"] keep show ?thesis by simp
  next
    case False
    then have "controllers_loop slv h ts a reg_deps tv (reg # rest) acc
           = controllers_loop slv h2 ts a reg_deps tv rest acc"
      by (simp add: cp h2_def)
    with Cons.IH [OF n2 Cons.prems(2), of acc] keep show ?thesis by simp
  qed
qed

lemma pinned_copy_ref: "snd (pinned_copy h ts reg_deps) = next_ref h"
  by (simp add: pinned_copy_def Let_def state_copy_def new_state_def)

lemma pinned_copy_next: "next_ref (fst (pinned_copy h ts reg_deps)) = Suc (next_ref h)"
  by (simp add: pinned_copy_def Let_def state_copy_def new_state_def pin_registers_next)

lemma pinned_copy_cell:
  "cell (fst (pinned_copy h ts reg_deps)) (next_ref h) =
     (cell h ts)\<lparr>constraints := constraints (cell h ts) @
        map (\<lambda>r. C_eq_int (registers (cell h ts) r) (sentinel (bits (state_arch (cell h ts)))))
            (filter (\<lambda>r. symbolic (registers (cell h ts) r)) reg_deps)\<rparr>"
  by (simp add: pinned_copy_def Let_def state_copy_def new_state_def pin_registers_cell)

lemma get_ast_controllers_cases:
  assumes "symbolic a"
  shows "get_ast_controllers slv h ts a reg_deps =
     (if length (any_n_int slv (cell (fst (pinned_copy h ts reg_deps)) (next_ref h)) a 2) > 1
      then (fst (pinned_copy h ts reg_deps), [])
      else controllers_loop slv (fst (pinned_copy h ts reg_deps)) ts a reg_deps
             (sentinel (bits (state_arch (cell h ts)))) reg_deps [])"
proof -
  obtain h2 c where pc: "pinned_copy h ts reg_deps = (h2, c)" by (cases "pinned_copy h ts reg_deps")
  have c: "c = next_ref h" using pinned_copy_ref [of h ts reg_deps] pc by simp
  show ?thesis using assms by (simp add: get_ast_controllers_def Let_def pc c)
qed

lemma get_ast_controllers_fork:
  assumes "symbolic a"
  shows "cell (fst (get_ast_controllers slv h ts a reg_deps)) (next_ref h) =
     (cell h ts)\<lparr>constraints := constraints (cell h ts) @
        map (\<lambda>r. C_eq_int (registers (cell h ts) r) (sentinel (bits (state_arch (cell h ts)))))
            (filter (\<lambda>r. symbolic (registers (cell h ts) r)) reg_deps)\<rparr>"
proof (cases "length (any_n_int slv (cell (fst (pinned_copy h ts reg_deps)) (next_ref h)) a 2) > 1")
  case True
  then show ?thesis
    by (simp add: get_ast_controllers_cases [OF assms] pinned_copy_cell)
next
  case False
  have "next_ref h < next_ref (fst (pinned_copy h ts reg_deps))"
    by (simp add: pinned_copy_next)
  from controllers_loop_frame [OF order_refl this] False show ?thesis
    by (simp add: get_ast_controllers_cases [OF assms] pinned_copy_cell)
qed

lemma pinned_value:
  assumes "list_all (holds env) (cs @ map (\<lambda>r. C_eq_int (regs r) t) (filter (\<lambda>r. symbolic (regs r)) reg_deps))"
    and "r \<in> set reg_deps" and "symbolic (regs r)"
  shows "int (ast_eval env (regs r)) = t mod 2 ^ ast_size (regs r)"
proof -
  from assms(2,3) have "C_eq_int (regs r) t \<in> set (cs @ map (\<lambda>r. C_eq_int (regs r) t) (filter (\<lambda>r. symbolic (regs r)) reg_deps))"
    by auto
  with assms(1) have "holds env (C_eq_int (regs r) t)"
    unfolding list_all_iff by blast
  then show ?thesis by simp
qed

text \<open>
  Claim C3, as amended.  When the expression is symbolic, the store that
  \<open>get_ast_controllers\<close> leaves holds, at the first new reference, a copy of the state
  whose constraints are those of the state followed by one equation for each dependency
  register whose value is symbolic: that value \<open>==\<close> the integer \<open>0x4141414141414141\<close>
  modulo \<open>2 * 2 ^ bits\<close>.  The comparison is at the width of the register, so every
  assignment that satisfies the copy's constraints gives the register that integer modulo
  \<open>2\<close> to its width.  When the solver returns two values for the expression on that
  copy, the function returns the empty list.
\<close>

theorem get_ast_controllers_pins_dependencies:
  assumes "symbolic a"
  shows
    "cell (fst (get_ast_controllers slv h test_state a reg_deps)) (next_ref h) =
       (cell h test_state)\<lparr>constraints := constraints (cell h test_state) @
          map (\<lambda>r. C_eq_int (registers (cell h test_state) r)
                     (0x4141414141414141 mod (2 * 2 ^ bits (state_arch (cell h test_state)))))
              (filter (\<lambda>r. symbolic (registers (cell h test_state) r)) reg_deps)\<rparr>
     \<and> (\<forall>env r. r \<in> set reg_deps \<and> symbolic (registers (cell h test_state) r)
            \<and> list_all (holds env)
                 (constraints (cell (fst (get_ast_controllers slv h test_state a reg_deps)) (next_ref h)))
          \<longrightarrow> int (ast_eval env (registers (cell h test_state) r)) =
                (0x4141414141414141 mod (2 * 2 ^ bits (state_arch (cell h test_state))))
                  mod 2 ^ ast_size (registers (cell h test_state) r))
     \<and> (length (any_n_int slv
                   (cell (fst (get_ast_controllers slv h test_state a reg_deps)) (next_ref h)) a 2) > 1
          \<longrightarrow> snd (get_ast_controllers slv h test_state a reg_deps) = [])"
proof (intro conjI allI impI)
  note fork = get_ast_controllers_fork [OF assms, of slv h test_state reg_deps]
  show 1: "cell (fst (get_ast_controllers slv h test_state a reg_deps)) (next_ref h) =
       (cell h test_state)\<lparr>constraints := constraints (cell h test_state) @
          map (\<lambda>r. C_eq_int (registers (cell h test_state) r)
                     (0x4141414141414141 mod (2 * 2 ^ bits (state_arch (cell h test_state)))))
              (filter (\<lambda>r. symbolic (registers (cell h test_state) r)) reg_deps)\<rparr>"
    using fork by (simp add: sentinel_def)
  {
    fix env r
    assume h: "r \<in> set reg_deps \<and> symbolic (registers (cell h test_state) r)
            \<and> list_all (holds env)
                 (constraints (cell (fst (get_ast_controllers slv h test_state a reg_deps)) (next_ref h)))"
    then have "list_all (holds env) (constraints (cell h test_state) @
          map (\<lambda>r. C_eq_int (registers (cell h test_state) r)
                     (0x4141414141414141 mod (2 * 2 ^ bits (state_arch (cell h test_state)))))
              (filter (\<lambda>r. symbolic (registers (cell h test_state) r)) reg_deps))"
      unfolding 1 by simp
    from pinned_value [OF this] h
    show "int (ast_eval env (registers (cell h test_state) r)) =
                (0x4141414141414141 mod (2 * 2 ^ bits (state_arch (cell h test_state))))
                  mod 2 ^ ast_size (registers (cell h test_state) r)"
      by blast
  }
  assume two: "length (any_n_int slv
                   (cell (fst (get_ast_controllers slv h test_state a reg_deps)) (next_ref h)) a 2) > 1"
  have "cell (fst (get_ast_controllers slv h test_state a reg_deps)) (next_ref h)
      = cell (fst (pinned_copy h test_state reg_deps)) (next_ref h)"
    unfolding fork pinned_copy_cell ..
  with two show "snd (get_ast_controllers slv h test_state a reg_deps) = []"
    by (simp add: get_ast_controllers_cases [OF assms])
qed

lemma tiny_two_values:
  "any_n_int enum_solver (tiny_state\<lparr>constraints := [C_eq_int (BVS ''sreg_rax-_1_2'' 2) 1]\<rparr>)
      rax_plus_rbx 2 = [1, 2]"
  by (simp add: enum_solver_def models_def rax_plus_rbx_def upt_4)

lemma tiny_fork:
  "cell (fst (get_ast_controllers slv (single_heap tiny_state) 0 rax_plus_rbx [''rax''])) 1
     = tiny_state\<lparr>constraints := [C_eq_int (BVS ''sreg_rax-_1_2'' 2) 1]\<rparr>"
proof -
  have s: "symbolic rax_plus_rbx" by (simp add: symbolic_def rax_plus_rbx_def)
  have n: "next_ref (single_heap tiny_state) = 1" by (simp add: single_heap_def)
  show ?thesis
    using get_ast_controllers_fork [OF s, of slv "single_heap tiny_state" 0 "[''rax'']"]
    unfolding n
    by (simp add: single_heap_def sentinel_def symbolic_def tiny_state_def tiny_arch_def)
qed

text \<open>
  The theorem on the sum of the two tagged roots with only \<open>rax\<close> given as dependency:
  \<open>rax\<close> is pinned to 1, \<open>rbx\<close> stays free, the solver finds two values, and the result
  is empty.
\<close>

theorem get_ast_controllers_pins_dependencies_witness:
  "symbolic rax_plus_rbx
   \<and> cell (fst (get_ast_controllers enum_solver (single_heap tiny_state) 0 rax_plus_rbx [''rax''])) 1
       = tiny_state\<lparr>constraints := [C_eq_int (BVS ''sreg_rax-_1_2'' 2) 1]\<rparr>
   \<and> any_n_int enum_solver (tiny_state\<lparr>constraints := [C_eq_int (BVS ''sreg_rax-_1_2'' 2) 1]\<rparr>)
         rax_plus_rbx 2 = [1, 2]
   \<and> snd (get_ast_controllers enum_solver (single_heap tiny_state) 0 rax_plus_rbx [''rax'']) = []
   \<and> list_all (holds (\<lambda>x. 1)) [C_eq_int (BVS ''sreg_rax-_1_2'' 2) 1]
   \<and> int (ast_eval (\<lambda>x. 1) (registers tiny_state ''rax'')) = 1"
proof -
  have s: "symbolic rax_plus_rbx" by (simp add: symbolic_def rax_plus_rbx_def)
  have n: "next_ref (single_heap tiny_state) = 1" by (simp add: single_heap_def)
  have c: "cell (single_heap tiny_state) 0 = tiny_state" by (simp add: single_heap_def)
  have b: "bits (state_arch tiny_state) = 2" by (simp add: tiny_state_def tiny_arch_def)
  have rs: "symbolic (registers tiny_state ''rax'')" by (simp add: symbolic_def tiny_state_def)
  have sz: "ast_size (registers tiny_state ''rax'') = 2" by (simp add: tiny_state_def)
  have hs: "list_all (holds (\<lambda>x. 1)) [C_eq_int (BVS ''sreg_rax-_1_2'' 2) 1]" by simp
  note th = get_ast_controllers_pins_dependencies
              [OF s, of enum_solver "single_heap tiny_state" 0 "[''rax'']", unfolded n c b]
  have 1: "snd (get_ast_controllers enum_solver (single_heap tiny_state) 0 rax_plus_rbx [''rax'']) = []"
    using th [THEN conjunct2, THEN conjunct2] unfolding tiny_fork tiny_two_values by simp
  have 2: "int (ast_eval (\<lambda>x. 1) (registers tiny_state ''rax'')) = 1"
    using th [THEN conjunct2, THEN conjunct1, THEN spec [where x = "\<lambda>x. 1"],
              THEN spec [where x = "''rax''"]] rs hs
    unfolding tiny_fork sz by simp
  from s tiny_fork tiny_two_values 1 hs 2 show ?thesis by (intro conjI)
qed

text \<open>
  The claim as worded fails on 32 bits.  There the integer is \<open>0x141414141\<close>, which no
  32-bit register holds: the equation pins \<open>eax\<close> to \<open>0x41414141\<close>.
\<close>

theorem sentinel_pin_32_bit_counterexample:
  "symbolic (BVS ''sreg_eax-_1_32'' 32)
   \<and> registers x86_state ''eax'' = BVS ''sreg_eax-_1_32'' 32
   \<and> constraints (cell (fst (get_ast_controllers enum_solver (single_heap x86_state) 0
                               (BVS ''sreg_eax-_1_32'' 32) [''eax''])) 1)
       = [C_eq_int (BVS ''sreg_eax-_1_32'' 32) 0x141414141]
   \<and> holds (\<lambda>x. 0x41414141) (C_eq_int (BVS ''sreg_eax-_1_32'' 32) 0x141414141)
   \<and> int (ast_eval (\<lambda>x. 0x41414141) (registers x86_state ''eax''))
       \<noteq> 0x4141414141414141 mod (2 * 2 ^ bits (state_arch x86_state))"
proof -
  have s: "symbolic (BVS ''sreg_eax-_1_32'' 32)" by (simp add: symbolic_def)
  have n: "next_ref (single_heap x86_state) = 1" by (simp add: single_heap_def)
  have r: "registers x86_state ''eax'' = BVS ''sreg_eax-_1_32'' 32" by (simp add: x86_state_def)
  have c: "constraints (cell (fst (get_ast_controllers enum_solver (single_heap x86_state) 0
                               (BVS ''sreg_eax-_1_32'' 32) [''eax''])) 1)
       = [C_eq_int (BVS ''sreg_eax-_1_32'' 32) 0x141414141]"
    using get_ast_controllers_fork [OF s, of enum_solver "single_heap x86_state" 0 "[''eax'']"]
    unfolding n
    by (simp add: single_heap_def sentinel_def symbolic_def x86_state_def x86_def)
  have h: "holds (\<lambda>x. 0x41414141) (C_eq_int (BVS ''sreg_eax-_1_32'' 32) 0x141414141)"
    by simp
  have ne: "int (ast_eval (\<lambda>x. 0x41414141) (registers x86_state ''eax''))
       \<noteq> 0x4141414141414141 mod (2 * 2 ^ bits (state_arch x86_state))"
    unfolding r by (simp add: x86_state_def x86_def)
  from s r c h ne show ?thesis by (intro conjI)
qed

lemma controllers_loop_subset:
  "set (snd (controllers_loop slv h ts a reg_deps tv todo acc)) \<subseteq> set acc \<union> set todo"
proof (induction todo arbitrary: h acc)
  case Nil
  show ?case by simp
next
  case (Cons reg rest)
  obtain h1 c where cp: "state_copy h ts = (h1, c)" by (cases "state_copy h ts")
  define h2 where "h2 = pin_registers h1 c tv (filter (\<lambda>r. r \<noteq> reg) reg_deps)"
  show ?case
  proof (cases "unconstrained_check slv (cell h2 c) a")
    case True
    then have "controllers_loop slv h ts a reg_deps tv (reg # rest) acc
           = controllers_loop slv h2 ts a reg_deps tv rest (acc @ [reg])"
      by (simp add: cp h2_def)
    with Cons.IH [of h2 "acc @ [reg]"] show ?thesis by auto
  next
    case False
    then have "controllers_loop slv h ts a reg_deps tv (reg # rest) acc
           = controllers_loop slv h2 ts a reg_deps tv rest acc"
      by (simp add: cp h2_def)
    with Cons.IH [of h2 acc] show ?thesis by auto
  qed
qed

text \<open>
  Claim C8.  Every register that \<open>get_ast_controllers\<close> returns is one of the
  dependency registers it was given.
\<close>

theorem get_ast_controllers_subset:
  "set (snd (get_ast_controllers slv h test_state a reg_deps)) \<subseteq> set reg_deps"
  using controllers_loop_subset [of slv _ test_state a reg_deps _ reg_deps "[]"]
  by (auto simp: get_ast_controllers_def Let_def split: prod.splits)

lemma tiny_controllers:
  "snd (get_ast_controllers enum_solver (single_heap tiny_state) 0 (BVS ''sreg_rax-_1_2'' 2) [''rax''])
     = [''rax'']"
  by (simp add: get_ast_controllers_def pinned_copy_def single_heap_def state_copy_def new_state_def
        Let_def add_constraints_def update_state_def sentinel_def symbolic_def tiny_state_def
        tiny_arch_def unconstrained_check_def test_val_0_def test_val_1_def test_val_2_def
        test_val_3_def test_val_4_def int_base2_1010 int_base2_0101 int_base2_fifth
        enum_solver_def models_def upt_4)

text \<open>
  The theorem on the root \<open>sreg_rax\<close> with the dependency \<open>rax\<close>, which controls it.
\<close>

theorem get_ast_controllers_subset_witness:
  "snd (get_ast_controllers enum_solver (single_heap tiny_state) 0 (BVS ''sreg_rax-_1_2'' 2) [''rax''])
     = [''rax'']
   \<and> set (snd (get_ast_controllers enum_solver (single_heap tiny_state) 0 (BVS ''sreg_rax-_1_2'' 2) [''rax'']))
       \<subseteq> set [''rax'']"
  using tiny_controllers
    get_ast_controllers_subset [of enum_solver "single_heap tiny_state" 0 "BVS ''sreg_rax-_1_2'' 2" "[''rax'']"]
  by (intro conjI)

section \<open>Properties of the entry-state builder\<close>

lemma built_state_eq:
  "built_state slv prj h stack_length =
     (let s0 = blank_state prj
                 {AVOID_MULTIVALUED_READS, AVOID_MULTIVALUED_WRITES,
                  NO_SYMBOLIC_JUMP_RESOLUTION, CGC_NO_SYMBOLIC_RECEIVE_LENGTH,
                  NO_SYMBOLIC_SYSCALL_RESOLUTION, TRACK_ACTION_HISTORY}
                 (resilience_options prj \<union> simplification prj)
      in s0\<lparr>registers := (registers s0)
                (''bp'' := bv_add_int (registers s0 ''sp'') (20 * int (bits (state_arch s0)))),
             memory := (registers s0 ''sp'',
                        se_BVS slv ''symbolic_stack'' (bits (project_arch prj) * stack_length)) # memory s0,
             options := (options s0 - {CGC_ZERO_FILL_UNCONSTRAINED_MEMORY}) \<union>
                    {TRACK_REGISTER_ACTIONS, TRACK_MEMORY_ACTIONS,
                     TRACK_JMP_ACTIONS, TRACK_CONSTRAINT_ACTIONS},
             solver_timeout := 500\<rparr>)"
  by (simp add: built_state_def make_initial_state_def new_state_def update_state_def Let_def)

lemma ast_eval_bv_add_int:
  "ast_eval env (bv_add_int e (int n)) = (ast_eval env e + n) mod 2 ^ ast_size e"
proof -
  have "nat (int n mod 2 ^ ast_size e) = n mod 2 ^ ast_size e"
    by (simp add: nat_mod_as_int)
  then show ?thesis
    by (simp add: bv_add_int_def mod_simps)
qed

text \<open>
  What the code computes: in the state that \<open>make_initial_state\<close> returns, the frame
  pointer is the stack pointer plus \<open>20 * arch.bits\<close>, in arithmetic modulo \<open>2\<close> to the
  width of the stack pointer.
\<close>

lemma built_state_frame_pointer:
  "registers (built_state slv prj h stack_length) ''bp'' =
     bv_add_int (registers (built_state slv prj h stack_length) ''sp'')
                (20 * int (bits (state_arch (built_state slv prj h stack_length))))
   \<and> (\<forall>env. ast_eval env (registers (built_state slv prj h stack_length) ''bp'') =
        (ast_eval env (registers (built_state slv prj h stack_length) ''sp'')
           + 20 * bits (state_arch (built_state slv prj h stack_length)))
        mod 2 ^ ast_size (registers (built_state slv prj h stack_length) ''sp''))"
proof -
  have 1: "registers (built_state slv prj h stack_length) ''bp'' =
     bv_add_int (registers (built_state slv prj h stack_length) ''sp'')
                (20 * int (bits (state_arch (built_state slv prj h stack_length))))"
    by (simp add: built_state_eq Let_def)
  have 2: "20 * int n = int (20 * n)" for n by simp
  show ?thesis
    unfolding 1 [unfolded 2] ast_eval_bv_add_int using 1 by simp
qed

text \<open>
  Claim C1.  The claim puts the frame pointer 20 words above the stack pointer, at
  \<open>sp + 20 * (arch.bits / 8)\<close>.  The code multiplies 20 by the number of bits of a word:
  on a 64-bit project whose blank state has the stack pointer \<open>0x7FFFFFFF0000\<close>, the
  frame pointer is 1280 above the stack pointer, where 20 words are 160 bytes.
\<close>

theorem make_initial_state_frame_pointer_amd64:
  "registers (built_state enum_solver (toy_project amd64 (\<lambda>a. Halt)) (single_heap tiny_state) 200) ''sp''
     = BVV 0x7FFFFFFF0000 64
   \<and> bits (state_arch (built_state enum_solver (toy_project amd64 (\<lambda>a. Halt)) (single_heap tiny_state) 200))
     = 64
   \<and> ast_eval (\<lambda>x. 0)
       (registers (built_state enum_solver (toy_project amd64 (\<lambda>a. Halt)) (single_heap tiny_state) 200) ''bp'')
     = 0x7FFFFFFF0000 + 1280
   \<and> ast_eval (\<lambda>x. 0)
       (registers (built_state enum_solver (toy_project amd64 (\<lambda>a. Halt)) (single_heap tiny_state) 200) ''bp'')
     \<noteq> (ast_eval (\<lambda>x. 0)
          (registers (built_state enum_solver (toy_project amd64 (\<lambda>a. Halt)) (single_heap tiny_state) 200) ''sp'')
         + 20 * (bits (state_arch (built_state enum_solver (toy_project amd64 (\<lambda>a. Halt)) (single_heap tiny_state) 200)) div 8))
        mod 2 ^ 64"
proof -
  let ?s = "built_state enum_solver (toy_project amd64 (\<lambda>a. Halt)) (single_heap tiny_state) 200"
  have sp: "registers ?s ''sp'' = BVV 0x7FFFFFFF0000 64"
    by (simp add: built_state_eq Let_def toy_project_def toy_blank_state_def amd64_def)
  have b: "bits (state_arch ?s) = 64"
    by (simp add: built_state_eq Let_def toy_project_def toy_blank_state_def amd64_def)
  have bp: "ast_eval (\<lambda>x. 0) (registers ?s ''bp'') = 0x7FFFFFFF0000 + 1280"
    using built_state_frame_pointer
            [of enum_solver "toy_project amd64 (\<lambda>a. Halt)" "single_heap tiny_state" 200,
             THEN conjunct2, THEN spec, of "\<lambda>x. 0"]
    unfolding sp b by simp
  have ne: "ast_eval (\<lambda>x. 0) (registers ?s ''bp'')
     \<noteq> (ast_eval (\<lambda>x. 0) (registers ?s ''sp'') + 20 * (bits (state_arch ?s) div 8)) mod 2 ^ 64"
    unfolding bp unfolding sp b by simp
  from sp b bp ne show ?thesis by (intro conjI)
qed

section \<open>Properties of the stepper\<close>

lemma stepper_unfold:
  "step_to_unconstrained_successor prj h st path max_steps allow =
     (let h1 = options_add h st BYPASS_UNSUPPORTED_SYSCALL;
          p = (case path of None \<Rightarrow> factory_path prj h1 st | Some q \<Rightarrow> q)
      in if errored p then (h1, Inl (RopException (path_error p)))
         else
           (case path_step prj h1 p of
              (h2, UnsupportedSyscallError) \<Rightarrow>
                (h2, Inl (RopException ''Does not get to a single unconstrained successor''))
            | (h2, Stepped successors unconstrained_successors) \<Rightarrow>
                if length successors + length unconstrained_successors \<noteq> 1
                then (h2, Inl (RopException ''Does not get to a single successor''))
                else if length successors = 1 \<and> max_steps > 0 then
                  (if \<not> allow \<and> is_hooked prj (addr (successors ! 0))
                   then (h2, Inl (RopException ''Skipping simprocedure''))
                   else step_to_unconstrained_successor prj h2 (path_state (successors ! 0))
                          (Some (successors ! 0)) (max_steps - 1) allow)
                else if length successors = 1 \<and> max_steps = 0
                then (h2, Inl (RopException ''Does not get to an unconstrained successor''))
                else (case unconstrained_successors of
                        [] \<Rightarrow> (h2, Inl IndexError)
                      | u # _ \<Rightarrow> (h2, Inr u))))"
  by (rule step_to_unconstrained_successor.simps)

text \<open>
  Claim C5.  When the path is not errored and its step leaves a number of successors,
  constrained and unconstrained together, other than one, the stepper fails with
  \<open>AmbiguousSuccessor\<close>.  An errored path is one the engine could not step; it is
  rejected before the step is looked at.
\<close>

theorem stepper_ambiguous_successor:
  assumes "p = (case path of None \<Rightarrow> factory_path prj (options_add h st BYPASS_UNSUPPORTED_SYSCALL) st
                           | Some q \<Rightarrow> q)"
    and "\<not> errored p"
    and "path_step prj (options_add h st BYPASS_UNSUPPORTED_SYSCALL) p
           = (h2, Stepped successors unconstrained_successors)"
    and "length successors + length unconstrained_successors \<noteq> 1"
  shows "snd (step_to_unconstrained_successor prj h st path max_steps allow_simprocedures)
           = Inl AmbiguousSuccessor"
  using assms
  by (subst stepper_unfold) (simp add: Let_def AmbiguousSuccessor_def)

lemma toy_factory_path:
  "start_path = (case None of None \<Rightarrow> factory_path (toy_project a prog) h 0 | Some q \<Rightarrow> q)"
  by (simp add: toy_project_def start_path_def)

lemma start_path_not_errored: "\<not> errored start_path"
  by (simp add: start_path_def)

lemma pair_of_snd: "snd x = b \<Longrightarrow> x = (fst x, b)"
  by auto

lemma toy_branch_step:
  "snd (path_step (toy_project amd64 (\<lambda>a. Branch))
      (options_add (single_heap tiny_state) 0 BYPASS_UNSUPPORTED_SYSCALL) start_path)
   = Stepped [start_path\<lparr>path_state := 1, addr := 1\<rparr>,
              start_path\<lparr>path_state := 2, addr := 2\<rparr>] []"
  by (simp add: toy_project_def toy_step_def single_heap_def options_add_def update_state_def
        state_copy_def new_state_def Let_def start_path_def)

lemma toy_fall_step:
  "snd (path_step (toy_project amd64 (\<lambda>a. Fall_through))
      (options_add (single_heap tiny_state) 0 BYPASS_UNSUPPORTED_SYSCALL) start_path)
   = Stepped [start_path\<lparr>path_state := 1, addr := 1\<rparr>] []"
  by (simp add: toy_project_def toy_step_def single_heap_def options_add_def update_state_def
        state_copy_def new_state_def Let_def start_path_def)

text \<open>
  The theorem on a program whose first instruction branches: two successors.
\<close>

theorem stepper_ambiguous_successor_witness:
  "\<not> errored start_path
   \<and> snd (path_step (toy_project amd64 (\<lambda>a. Branch))
        (options_add (single_heap tiny_state) 0 BYPASS_UNSUPPORTED_SYSCALL) start_path)
      = Stepped [start_path\<lparr>path_state := 1, addr := 1\<rparr>,
                 start_path\<lparr>path_state := 2, addr := 2\<rparr>] []
   \<and> snd (step_to_unconstrained_successor (toy_project amd64 (\<lambda>a. Branch))
             (single_heap tiny_state) 0 None 2 False) = Inl AmbiguousSuccessor"
proof -
  have "snd (step_to_unconstrained_successor (toy_project amd64 (\<lambda>a. Branch))
             (single_heap tiny_state) 0 None 2 False) = Inl AmbiguousSuccessor"
    by (rule stepper_ambiguous_successor
              [OF toy_factory_path start_path_not_errored toy_branch_step [THEN pair_of_snd]]) simp
  with start_path_not_errored toy_branch_step show ?thesis by (intro conjI)
qed

text \<open>
  Claim C6.  When the path is not errored, its step leaves one constrained successor
  and no unconstrained one, and \<open>max_steps\<close> is 0, the stepper fails with
  \<open>BudgetExhausted\<close>.
\<close>

theorem stepper_budget_exhausted:
  assumes "p = (case path of None \<Rightarrow> factory_path prj (options_add h st BYPASS_UNSUPPORTED_SYSCALL) st
                           | Some q \<Rightarrow> q)"
    and "\<not> errored p"
    and "path_step prj (options_add h st BYPASS_UNSUPPORTED_SYSCALL) p
           = (h2, Stepped successors unconstrained_successors)"
    and "length successors = 1"
    and "length unconstrained_successors = 0"
  shows "snd (step_to_unconstrained_successor prj h st path 0 allow_simprocedures)
           = Inl BudgetExhausted"
  using assms
  by (subst stepper_unfold) (simp add: Let_def BudgetExhausted_def)

text \<open>
  The theorem on a program whose first instruction falls through, with no budget.
\<close>

theorem stepper_budget_exhausted_witness:
  "\<not> errored start_path
   \<and> snd (path_step (toy_project amd64 (\<lambda>a. Fall_through))
        (options_add (single_heap tiny_state) 0 BYPASS_UNSUPPORTED_SYSCALL) start_path)
      = Stepped [start_path\<lparr>path_state := 1, addr := 1\<rparr>] []
   \<and> snd (step_to_unconstrained_successor (toy_project amd64 (\<lambda>a. Fall_through))
             (single_heap tiny_state) 0 None 0 False) = Inl BudgetExhausted"
proof -
  have "snd (step_to_unconstrained_successor (toy_project amd64 (\<lambda>a. Fall_through))
             (single_heap tiny_state) 0 None 0 False) = Inl BudgetExhausted"
    by (rule stepper_budget_exhausted
              [OF toy_factory_path start_path_not_errored toy_fall_step [THEN pair_of_snd]]) simp_all
  with start_path_not_errored toy_fall_step show ?thesis by (intro conjI)
qed

lemma get_ast_controllers_frame:
  assumes "r < next_ref h"
  shows "cell (fst (get_ast_controllers slv h ts a reg_deps)) r = cell h r"
proof (cases "symbolic a")
  case False
  then show ?thesis by (simp add: get_ast_controllers_def Let_def)
next
  case True
  obtain h1 c where cp: "state_copy h ts = (h1, c)" by (cases "state_copy h ts")
  define tv where "tv = sentinel (bits (state_arch (cell h ts)))"
  define h2 where "h2 = pin_registers h1 c tv reg_deps"
  have pc: "pinned_copy h ts reg_deps = (h2, c)"
    by (simp add: pinned_copy_def Let_def cp h2_def tv_def)
  have c: "c = next_ref h" using cp by (rule state_copy_ref)
  have n2: "next_ref h \<le> next_ref h2"
    using state_copy_next [OF cp] by (simp add: h2_def pin_registers_next)
  have "r \<noteq> c" using assms c by simp
  then have "cell h2 r = cell h1 r" unfolding h2_def by (rule pin_registers_other)
  also have "\<dots> = cell h r" using state_copy_cell [OF cp, of r] assms by simp
  finally have keep: "cell h2 r = cell h r" .
  show ?thesis
  proof (cases "length (any_n_int slv (cell h2 c) a 2) > 1")
    case True
    with \<open>symbolic a\<close> keep show ?thesis
      by (simp add: get_ast_controllers_def Let_def pc)
  next
    case False
    with \<open>symbolic a\<close> have "get_ast_controllers slv h ts a reg_deps
        = controllers_loop slv h2 ts a reg_deps tv reg_deps []"
      by (simp add: get_ast_controllers_def Let_def pc tv_def)
    with controllers_loop_frame [OF n2 assms] keep show ?thesis by simp
  qed
qed

lemma engine_step_frame:
  assumes "engine_preserves_states prj" and "path_step prj h p = (h', out)"
  shows "next_ref h \<le> next_ref h'" and "r < next_ref h \<Longrightarrow> cell h' r = cell h r"
    and "out = Stepped succs uncs \<Longrightarrow> q \<in> set succs \<Longrightarrow> next_ref h \<le> path_state q"
proof -
  have e: "next_ref h \<le> next_ref (fst (path_step prj h p)) \<and>
        (\<forall>r. r < next_ref h \<longrightarrow> cell (fst (path_step prj h p)) r = cell h r) \<and>
        (\<forall>successors unconstrained_successors.
           snd (path_step prj h p) = Stepped successors unconstrained_successors \<longrightarrow>
           (\<forall>q \<in> set successors \<union> set unconstrained_successors. next_ref h \<le> path_state q))"
    using assms(1) unfolding engine_preserves_states_def by (elim allE)
  from e assms(2) show "next_ref h \<le> next_ref h'" by simp
  from e assms(2) show "r < next_ref h \<Longrightarrow> cell h' r = cell h r" by simp
  from e assms(2) show "out = Stepped succs uncs \<Longrightarrow> q \<in> set succs \<Longrightarrow> next_ref h \<le> path_state q"
    by simp
qed

lemma stepper_frame:
  assumes eng: "engine_preserves_states prj"
  shows "N \<le> next_ref h \<Longrightarrow> r < N \<Longrightarrow>
     cell (fst (step_to_unconstrained_successor prj h st path max_steps allow)) r =
       (if r = st then (cell h st)\<lparr>options := insert BYPASS_UNSUPPORTED_SYSCALL (options (cell h st))\<rparr>
        else cell h r)"
  using eng
proof (induction prj h st path max_steps allow rule: step_to_unconstrained_successor.induct)
  case (1 prj h st path max_steps allow)
  define h1 where "h1 = options_add h st BYPASS_UNSUPPORTED_SYSCALL"
  define p where "p = (case path of None \<Rightarrow> factory_path prj h1 st | Some q \<Rightarrow> q)"
  let ?goal = "(if r = st then (cell h st)\<lparr>options := insert BYPASS_UNSUPPORTED_SYSCALL (options (cell h st))\<rparr>
        else cell h r)"
  note eng = "1.prems"(3)
  have eq: "step_to_unconstrained_successor prj h st path max_steps allow =
      (if errored p then (h1, Inl (RopException (path_error p)))
         else
           (case path_step prj h1 p of
              (h2, UnsupportedSyscallError) \<Rightarrow>
                (h2, Inl (RopException ''Does not get to a single unconstrained successor''))
            | (h2, Stepped successors unconstrained_successors) \<Rightarrow>
                if length successors + length unconstrained_successors \<noteq> 1
                then (h2, Inl (RopException ''Does not get to a single successor''))
                else if length successors = 1 \<and> max_steps > 0 then
                  (if \<not> allow \<and> is_hooked prj (addr (successors ! 0))
                   then (h2, Inl (RopException ''Skipping simprocedure''))
                   else step_to_unconstrained_successor prj h2 (path_state (successors ! 0))
                          (Some (successors ! 0)) (max_steps - 1) allow)
                else if length successors = 1 \<and> max_steps = 0
                then (h2, Inl (RopException ''Does not get to an unconstrained successor''))
                else (case unconstrained_successors of
                        [] \<Rightarrow> (h2, Inl IndexError)
                      | u # _ \<Rightarrow> (h2, Inr u))))"
    unfolding h1_def p_def
    by (subst step_to_unconstrained_successor.simps) (simp only: Let_def)
  have c1: "cell h1 r = ?goal" unfolding h1_def by (simp add: options_add_cell)
  have n1: "next_ref h1 = next_ref h" unfolding h1_def by (rule options_add_next)
  show ?case
  proof (cases "errored p")
    case True
    with eq c1 show ?thesis by simp
  next
    case False
    obtain h2 out where st: "path_step prj h1 p = (h2, out)" by (cases "path_step prj h1 p")
    have rn: "r < next_ref h1" using "1.prems" n1 by simp
    have n2: "N \<le> next_ref h2"
      using engine_step_frame(1) [OF eng st] "1.prems"(1) n1 by simp
    have c2: "cell h2 r = ?goal"
      using engine_step_frame(2) [OF eng st rn] c1 by simp
    show ?thesis
    proof (cases out)
      case UnsupportedSyscallError
      with eq False st c2 show ?thesis by simp
    next
      case (Stepped succs uncs)
      show ?thesis
      proof (cases "length succs + length uncs \<noteq> 1")
        case True
        with eq False st Stepped c2 show ?thesis by simp
      next
        case one: False
        show ?thesis
        proof (cases "length succs = 1 \<and> max_steps > 0")
          case rec: True
          show ?thesis
          proof (cases "\<not> allow \<and> is_hooked prj (addr (succs ! 0))")
            case True
            with eq False st Stepped one rec c2 show ?thesis by simp
          next
            case nohook: False
            have eq2: "step_to_unconstrained_successor prj h st path max_steps allow =
                step_to_unconstrained_successor prj h2 (path_state (succs ! 0))
                          (Some (succs ! 0)) (max_steps - 1) allow"
              using eq False st Stepped one rec nohook by auto
            have "succs ! 0 \<in> set succs" using rec by (simp add: nth_mem)
            then have "next_ref h1 \<le> path_state (succs ! 0)"
              using engine_step_frame(3) [OF eng st Stepped] by blast
            then have ne: "r \<noteq> path_state (succs ! 0)" using rn by simp
            have "cell (fst (step_to_unconstrained_successor prj h2 (path_state (succs ! 0))
                          (Some (succs ! 0)) (max_steps - 1) allow)) r = cell h2 r"
              using "1.IH" [OF h1_def p_def False st [symmetric] Stepped one rec nohook n2 "1.prems"(2) eng] ne
              by simp
            with eq2 c2 show ?thesis by simp
          qed
        next
          case norec: False
          show ?thesis
          proof (cases uncs)
            case Nil
            with eq False st Stepped one norec c2 show ?thesis by (simp split: if_splits)
          next
            case (Cons u us)
            with eq False st Stepped one norec c2 show ?thesis by (simp split: if_splits)
          qed
        qed
      qed
    qed
  qed
qed

lemma toy_step_preserves: "engine_preserves_states (toy_project a prog)"
  unfolding engine_preserves_states_def
proof (intro allI)
  fix h p
  show "next_ref h \<le> next_ref (fst (path_step (toy_project a prog) h p)) \<and>
        (\<forall>r. r < next_ref h \<longrightarrow> cell (fst (path_step (toy_project a prog) h p)) r = cell h r) \<and>
        (\<forall>successors unconstrained_successors.
           snd (path_step (toy_project a prog) h p) = Stepped successors unconstrained_successors \<longrightarrow>
           (\<forall>q \<in> set successors \<union> set unconstrained_successors. next_ref h \<le> path_state q))"
    by (cases "prog (addr p)")
       (auto simp: toy_project_def toy_step_def state_copy_def new_state_def Let_def)
qed

text \<open>
  Claim C7, as amended.  \<open>get_ast_controllers\<close> changes no state object that existed
  before the call: it works on copies.  The stepper changes one: it adds the option
  \<open>BYPASS_UNSUPPORTED_SYSCALL\<close> to the state it was given, and, when the engine's step
  changes no existing object, nothing else of that state and no other existing object.
  \<open>unconstrained_check\<close> only queries the solver.
\<close>

theorem caller_state_frame:
  "(\<forall>r. r < next_ref h \<longrightarrow>
        cell (fst (get_ast_controllers slv h test_state a reg_deps)) r = cell h r)
   \<and> (engine_preserves_states prj \<longrightarrow>
        (\<forall>r. r < next_ref h \<longrightarrow>
           cell (fst (step_to_unconstrained_successor prj h st path max_steps allow_simprocedures)) r =
             (if r = st
              then (cell h st)\<lparr>options := insert BYPASS_UNSUPPORTED_SYSCALL (options (cell h st))\<rparr>
              else cell h r)))"
  using get_ast_controllers_frame stepper_frame [where N = "next_ref h" and h = h] by simp

text \<open>
  The theorem on the store with one state, at reference 0, and a program that jumps to
  an unconstrained target.
\<close>

theorem caller_state_frame_witness:
  "engine_preserves_states (toy_project amd64 (\<lambda>a. Jump_free))
   \<and> 0 < next_ref (single_heap tiny_state)
   \<and> cell (fst (get_ast_controllers enum_solver (single_heap tiny_state) 0
                  (BVS ''sreg_rax-_1_2'' 2) [''rax''])) 0 = tiny_state
   \<and> cell (fst (step_to_unconstrained_successor (toy_project amd64 (\<lambda>a. Jump_free))
                  (single_heap tiny_state) 0 None 2 False)) 0
       = tiny_state\<lparr>options := {BYPASS_UNSUPPORTED_SYSCALL}\<rparr>"
proof -
  have n: "0 < next_ref (single_heap tiny_state)" by (simp add: single_heap_def)
  have c: "cell (single_heap tiny_state) 0 = tiny_state" by (simp add: single_heap_def)
  have o: "options tiny_state = {}" by (simp add: tiny_state_def)
  note f = caller_state_frame [of "single_heap tiny_state" enum_solver 0 "BVS ''sreg_rax-_1_2'' 2"
             "[''rax'']" "toy_project amd64 (\<lambda>a. Jump_free)" 0 None 2 False]
  have 1: "cell (fst (get_ast_controllers enum_solver (single_heap tiny_state) 0
                  (BVS ''sreg_rax-_1_2'' 2) [''rax''])) 0 = tiny_state"
    using f n c by simp
  have 2: "cell (fst (step_to_unconstrained_successor (toy_project amd64 (\<lambda>a. Jump_free))
                  (single_heap tiny_state) 0 None 2 False)) 0
       = tiny_state\<lparr>options := {BYPASS_UNSUPPORTED_SYSCALL}\<rparr>"
    using f n c o toy_step_preserves [of amd64 "\<lambda>a. Jump_free"] by simp
  from toy_step_preserves n 1 2 show ?thesis by (intro conjI)
qed

lemma toy_jump_free_run:
  "step_to_unconstrained_successor (toy_project amd64 (\<lambda>a. Jump_free)) (single_heap tiny_state) 0 None 2 False
   = (\<lparr>cell = (\<lambda>r. tiny_state)
          (0 := tiny_state\<lparr>options := {BYPASS_UNSUPPORTED_SYSCALL}\<rparr>,
           1 := tiny_state\<lparr>options := {BYPASS_UNSUPPORTED_SYSCALL}\<rparr>), next_ref = 2\<rparr>,
      Inr \<lparr>path_state = 1, errored = False, path_error = [], addr = 0\<rparr>)"
  by (subst step_to_unconstrained_successor.simps)
     (simp add: toy_project_def toy_step_def single_heap_def options_add_def update_state_def
         state_copy_def new_state_def Let_def tiny_state_def)

text \<open>
  The claim as worded fails there: after the stepper's call the caller's state has an
  option it did not have.
\<close>

theorem stepper_mutates_caller_state_counterexample:
  "cell (fst (step_to_unconstrained_successor (toy_project amd64 (\<lambda>a. Jump_free))
                (single_heap tiny_state) 0 None 2 False)) 0
   \<noteq> cell (single_heap tiny_state) 0"
proof -
  have "options (cell (fst (step_to_unconstrained_successor (toy_project amd64 (\<lambda>a. Jump_free))
                (single_heap tiny_state) 0 None 2 False)) 0) = {BYPASS_UNSUPPORTED_SYSCALL}"
    unfolding toy_jump_free_run by simp
  moreover have "options (cell (single_heap tiny_state) 0) = {}"
    by (simp add: single_heap_def tiny_state_def)
  ultimately show ?thesis by auto
qed

end
